theory Spec2Isabelle
  imports Complex_Main
begin

section \<open>Strings\<close>

text \<open>
  A Python \<open>str\<close> is a sequence of Unicode code points. \<open>str.strip()\<close> and the
  substring test \<open>kw in msg\<close> both work on code points, so a string is modelled as a
  list of code-point numbers. \<open>ustr\<close> turns an ASCII literal into such a list.
\<close>

type_synonym pystr = "nat list"

definition ustr :: "string \<Rightarrow> pystr" where
  "ustr s = map of_char s"

text \<open>
  The code points for which \<open>str.isspace()\<close> holds; these are what \<open>str.strip()\<close>
  removes at both ends.
\<close>

definition is_space :: "nat \<Rightarrow> bool" where
  "is_space c \<longleftrightarrow>
     (9 \<le> c \<and> c \<le> 13) \<or> (28 \<le> c \<and> c \<le> 32) \<or> c = 133 \<or> c = 160 \<or> c = 5760 \<or>
     (8192 \<le> c \<and> c \<le> 8202) \<or> c = 8232 \<or> c = 8233 \<or> c = 8239 \<or> c = 8287 \<or>
     c = 12288"

definition strip :: "pystr \<Rightarrow> pystr" where
  "strip s = rev (dropWhile is_space (rev (dropWhile is_space s)))"

section \<open>Credential resolution (auth.py, AuthManager._resolve_credentials)\<close>

text \<open>
  The inputs of \<open>_resolve_credentials\<close>: the two optional constructor arguments, the
  process environment (a dictionary from names to strings) and the configuration file
  \<open>~/.chanjing/config.json\<close>. The file is absent, or fails to open or parse, or parses to
  a JSON value; when that value is an object only its fields \<open>app_id\<close> and
  \<open>secret_key\<close> are read, and each of them is absent, a string, or some other JSON value
  (on which \<open>.strip()\<close> raises). A parsed value that is not an object makes
  \<open>config.get\<close> raise.
\<close>

datatype json_field = JAbsent | JStr pystr | JNotStr

datatype config_file =
    NoFile
  | Unreadable
  | NotObject
  | ConfigObject json_field json_field

datatype cred_error = ConfigurationError

text \<open>Python truthiness of an optional string: \<open>None\<close> and \<open>""\<close> are false.\<close>

fun truthy :: "pystr option \<Rightarrow> bool" where
  "truthy None = False"
| "truthy (Some s) = (s \<noteq> [])"

text \<open>\<open>os.environ.get(name, "").strip()\<close>\<close>

definition env_get_stripped :: "(string \<rightharpoonup> pystr) \<Rightarrow> string \<Rightarrow> pystr" where
  "env_get_stripped env name = strip (case env name of None \<Rightarrow> [] | Some v \<Rightarrow> v)"

text \<open>
  \<open>config.get(key, "").strip()\<close> on one field of the parsed object: \<open>None\<close> stands for
  the exception raised when the stored value has no \<open>strip\<close> method.
\<close>

fun field_get_stripped :: "json_field \<Rightarrow> pystr option" where
  "field_get_stripped JAbsent = Some (strip [])"
| "field_get_stripped (JStr s) = Some (strip s)"
| "field_get_stripped JNotStr = None"

text \<open>
  Step 3 of the resolution: the \<open>try\<close> block around the configuration file. The result
  is the pair returned from inside the block, or \<open>None\<close> when the file does not exist,
  the block raises (every exception is swallowed), or one of the two fields is empty.
\<close>

fun from_config_file :: "config_file \<Rightarrow> (pystr \<times> pystr) option" where
  "from_config_file NoFile = None"
| "from_config_file Unreadable = None"
| "from_config_file NotObject = None"
| "from_config_file (ConfigObject fa fs) =
     (case field_get_stripped fa of
        None \<Rightarrow> None
      | Some file_app_id \<Rightarrow>
          (case field_get_stripped fs of
             None \<Rightarrow> None
           | Some file_secret \<Rightarrow>
               if file_app_id \<noteq> [] \<and> file_secret \<noteq> []
               then Some (file_app_id, file_secret) else None))"

definition resolve_credentials ::
  "pystr option \<Rightarrow> pystr option \<Rightarrow> (string \<rightharpoonup> pystr) \<Rightarrow> config_file \<Rightarrow>
     cred_error + (pystr \<times> pystr)" where
  "resolve_credentials app_id secret_key env cfg =
     (if truthy app_id \<and> truthy secret_key
      then Inr (strip (the app_id), strip (the secret_key))
      else
        let env_app_id = env_get_stripped env ''CHANJING_APP_ID'';
            env_secret = env_get_stripped env ''CHANJING_SECRET_KEY''
        in if env_app_id \<noteq> [] \<and> env_secret \<noteq> []
           then Inr (env_app_id, env_secret)
           else (case from_config_file cfg of
                   Some p \<Rightarrow> Inr p
                 | None \<Rightarrow> Inl ConfigurationError))"

text \<open>The three sources as the specification words them.\<close>

definition explicit_pair :: "pystr option \<Rightarrow> pystr option \<Rightarrow> (pystr \<times> pystr) option" where
  "explicit_pair app_id secret_key =
     (case (app_id, secret_key) of
        (Some a, Some s) \<Rightarrow> if a \<noteq> [] \<and> s \<noteq> [] then Some (strip a, strip s) else None
      | _ \<Rightarrow> None)"

definition env_pair :: "(string \<rightharpoonup> pystr) \<Rightarrow> (pystr \<times> pystr) option" where
  "env_pair env =
     (let a = env_get_stripped env ''CHANJING_APP_ID'';
          s = env_get_stripped env ''CHANJING_SECRET_KEY''
      in if a \<noteq> [] \<and> s \<noteq> [] then Some (a, s) else None)"

definition file_pair :: "config_file \<Rightarrow> (pystr \<times> pystr) option" where
  "file_pair cfg =
     (case cfg of
        ConfigObject (JStr a) (JStr s) \<Rightarrow>
          if strip a \<noteq> [] \<and> strip s \<noteq> [] then Some (strip a, strip s) else None
      | _ \<Rightarrow> None)"

definition all_space :: "pystr \<Rightarrow> bool" where
  "all_space s \<longleftrightarrow> list_all is_space s"

section \<open>Exceptions\<close>

text \<open>
  The exceptions the SDK raises or lets through, one constructor per raise site or
  class. \<open>fault\<close> is the pair of \<open>requests\<close> exceptions that the HTTP layer retries.
  \<^item> \<open>HTTPError\<close>: raised by \<open>raise_for_status\<close>, with the status;
    \<open>OtherRequestError\<close>: any other exception of \<open>requests.request\<close>;
    \<open>SleepValueError\<close>: the \<open>ValueError\<close> of \<open>time.sleep\<close> on a negative duration;
    \<open>ConnectivityError\<close>: the builtin \<open>ConnectionError\<close> raised when the retries are
    used up, with the last exception retried.
  \<^item> \<open>JSONDecodeError\<close>: the body of a response is not a JSON object;
    \<open>PermissionError\<close> and \<open>ApiError\<close>: raised by \<open>json_request\<close>, with code and message;
    \<open>PayloadError\<close>: \<open>data\<close> of a token reply is not an object;
    \<open>EmptyTokenError\<close>: the token reply carries no token;
    \<open>KeyError\<close>: a reply lacks a key that is read by subscript;
    \<open>TypeError\<close>: the expiry of a cached token is compared with the time although it
    is not a number.
  \<^item> \<open>TextEmpty\<close> and \<open>TextTooLong\<close>: the two \<open>ValueError\<close>s of \<open>synthesize\<close>;
    \<open>TimeoutError\<close>: a polling loop has passed its maximum wait;
    \<open>BillingError\<close>: raised by \<open>check_billing_error\<close>, with the message;
    \<open>PollingFailed\<close>: five status queries in a row have failed, with the last failure;
    the others are the failures of the three jobs and of the file synchronisation.
  \<^item> \<open>ZeroDivisionError\<close> and \<open>OverflowError\<close>: the two exceptions of the arithmetic of
    Python on numbers: a division by zero, and a quotient too large for a float or the
    conversion of an infinite float to an integer.
\<close>

datatype fault = ConnectionFault | TimeoutFault

datatype error =
    HTTPError nat
  | OtherRequestError
  | SleepValueError
  | ConnectivityError "fault option"
  | JSONDecodeError
  | PermissionError int pystr
  | ApiError "int option" pystr
  | PayloadError
  | EmptyTokenError
  | KeyError
  | TypeError
  | ZeroDivisionError
  | OverflowError
  | TextEmpty
  | TextTooLong nat
  | TimeoutError
  | BillingError pystr
  | PollingFailed error
  | TTSFailed pystr
  | TTSNoUrl
  | LipSyncFailed pystr
  | LipSyncNoUrl
  | CloneFailed pystr
  | CloneExpired
  | CloneDeleted
  | FileUnavailable int

text \<open>
  The Python class of each exception, as far as the \<open>except\<close> clauses of the SDK
  tell classes apart: \<open>RuntimeError\<close> (the generic API error, the empty-token error,
  the billing error and every job failure), the builtin \<open>TimeoutError\<close>, and the rest
  (\<open>OSError\<close> subclasses, \<open>ValueError\<close>, \<open>KeyError\<close>, \<open>AttributeError\<close>, \<open>TypeError\<close>,
  \<open>ArithmeticError\<close> subclasses).
\<close>

fun is_RuntimeError :: "error \<Rightarrow> bool" where
  "is_RuntimeError (ApiError c m) = True"
| "is_RuntimeError EmptyTokenError = True"
| "is_RuntimeError (BillingError m) = True"
| "is_RuntimeError (PollingFailed e) = True"
| "is_RuntimeError (TTSFailed m) = True"
| "is_RuntimeError TTSNoUrl = True"
| "is_RuntimeError (LipSyncFailed m) = True"
| "is_RuntimeError LipSyncNoUrl = True"
| "is_RuntimeError (CloneFailed m) = True"
| "is_RuntimeError CloneExpired = True"
| "is_RuntimeError CloneDeleted = True"
| "is_RuntimeError (FileUnavailable s) = True"
| "is_RuntimeError e = False"

fun is_TimeoutError :: "error \<Rightarrow> bool" where
  "is_TimeoutError TimeoutError = True"
| "is_TimeoutError e = False"

section \<open>The state of a client and its environment (api.py, auth.py)\<close>

text \<open>
  A business response is a JSON object \<open>{code, msg, data}\<close>. Of \<open>data\<close> only what
  \<open>_refresh_token\<close> reads is kept: the key is missing, or its value is not an object,
  or it is an object whose \<open>access_token\<close> is absent or a string. The body of a
  response either parses to such an object or does not (\<open>NotJson\<close>: \<open>response.json()\<close>
  or \<open>result.get\<close> raises).
\<close>

datatype payload = PayloadMissing | PayloadNotObject | PayloadObject "pystr option"

record envelope =
  code :: "int option"
  msg :: "pystr option"
  data :: payload

datatype parsed = NotJson | Json envelope

record response =
  status_code :: nat
  body :: parsed

text \<open>What one call of \<open>requests.request\<close> does: it raises, or it returns a response.\<close>

datatype exchange = ConnectionFailure | TimedOut | OtherFailure | Answer response

text \<open>
  The arguments of a call of \<open>ApiClient.request\<close> or \<open>ApiClient.json_request\<close>.
  Dictionaries are association lists with unique keys. \<open>args\<close> stands for the keyword
  arguments that are only handed on to \<open>requests\<close> (\<open>params\<close>, \<open>json\<close>, \<open>data\<close>,
  \<open>timeout\<close>); they do not influence what the client does.
\<close>

record api_call =
  http_method :: string
  url :: string
  rate_category :: string
  silent_rate :: bool
  headers :: "(string \<times> pystr) list"
  args :: "(string \<times> pystr) list"

datatype log_line =
    RateWait string real
  | ConnectRetry int int int
  | TimeoutRetry int int int
  | TokenInvalid "int option"
  | FetchingToken
  | TokenStored
  | UsingCachedToken
  | SaveFailed

datatype event = Slept real | Sent api_call | Logged log_line

text \<open>
  The value of \<open>_token_expire\<close>. The client itself stores numbers there, but
  \<open>_load_token_cache\<close> stores whatever the key \<open>expire_time\<close> of the cache file holds: a
  number (a boolean counts as one, and \<open>json.load\<close> also reads \<open>Infinity\<close>, \<open>-Infinity\<close>
  and \<open>NaN\<close>), or a value that is not a number (\<open>null\<close>, a string, a list, an object).
\<close>

datatype expiry = Num real | PlusInfinity | MinusInfinity | NotANumber | NotNumeric

text \<open>
  The fields of an \<open>AuthManager\<close> and the content of its token cache file: there is no
  file, or the file cannot be read as a JSON object, or it is an object with the values
  of \<open>access_token\<close>, \<open>expire_time\<close> and \<open>config_hash\<close> (\<open>None\<close> for a missing key or
  \<open>null\<close>). Tokens and fingerprints are strings; the client only tests a token for
  truthiness and a fingerprint for equality, so a value of another type in the file
  stands for a string of the same truthiness.
\<close>

record auth_manager =
  app_id :: pystr
  secret_key :: pystr
  config_hash :: pystr
  token :: "pystr option"
  token_expire :: expiry
  token_config_hash :: "pystr option"

datatype token_file =
    NoCache
  | BadCache
  | Cache "pystr option" "expiry option" "pystr option"

text \<open>
  The world a client runs in. \<open>now\<close> is what \<open>time.time()\<close> returns; \<open>oversleep\<close>
  gives, for each coming \<open>time.sleep\<close>, how much longer than asked it lasts; \<open>net\<close>
  gives the outcome of each coming HTTP exchange; \<open>events\<close> records what the client
  did (sleeps, requests sent, log lines); \<open>timestamps\<close> is the rate limiter's
  dictionary; \<open>cache_writable\<close> says whether writing the token cache file succeeds.
  Time passes only in \<open>time.sleep\<close>.
\<close>

record world =
  now :: real
  oversleep :: "nat \<Rightarrow> real"
  net :: "nat \<Rightarrow> exchange"
  events :: "event list"
  timestamps :: "string \<rightharpoonup> real"
  auth :: auth_manager
  token_cache_file :: token_file
  cache_writable :: bool

definition time_sleep :: "real \<Rightarrow> world \<Rightarrow> world" where
  "time_sleep d w =
     w\<lparr>now := now w + d + oversleep w 0,
       oversleep := (\<lambda>k. oversleep w (Suc k)),
       events := events w @ [Slept d]\<rparr>"

definition logger :: "log_line \<Rightarrow> world \<Rightarrow> world" where
  "logger l w = w\<lparr>events := events w @ [Logged l]\<rparr>"

section \<open>Rate limiter (api.py, RateLimiter)\<close>

definition INTERVALS :: "string \<rightharpoonup> real" where
  "INTERVALS = [''lip_sync'' \<mapsto> 6, ''voice_clone'' \<mapsto> 6, ''tts'' \<mapsto> 1 / 2, ''default'' \<mapsto> 1]"

definition wait :: "string \<Rightarrow> bool \<Rightarrow> world \<Rightarrow> world" where
  "wait category silent w =
     (let interval = (case INTERVALS category of
                        Some i \<Rightarrow> i
                      | None \<Rightarrow> the (INTERVALS ''default''));
          last_time = (case timestamps w category of Some t \<Rightarrow> t | None \<Rightarrow> 0);
          elapsed = now w - last_time;
          w1 = (if elapsed < interval
                then let wait_time = interval - elapsed
                     in time_sleep wait_time
                          (if \<not> silent then logger (RateWait category wait_time) w else w)
                else w)
      in w1\<lparr>timestamps := (timestamps w1)(category \<mapsto> now w1)\<rparr>)"

section \<open>HTTP request layer (api.py, ApiClient.request)\<close>

text \<open>\<open>requests.request(method, url, **kwargs)\<close>: the next outcome of the network.\<close>

definition requests_request :: "api_call \<Rightarrow> world \<Rightarrow> exchange \<times> world" where
  "requests_request c w =
     (net w 0, w\<lparr>net := (\<lambda>k. net w (Suc k)), events := events w @ [Sent c]\<rparr>)"

text \<open>\<open>response.raise_for_status()\<close> raises for the statuses 400 to 599.\<close>

definition raise_for_status :: "response \<Rightarrow> error + response" where
  "raise_for_status r =
     (if 400 \<le> status_code r \<and> status_code r < 600 then Inl (HTTPError (status_code r))
      else Inr r)"

text \<open>
  The \<open>for attempt in range(1, max_retries + 1)\<close> loop, followed by the \<open>raise\<close> after
  it. \<open>time.sleep\<close> refuses a negative duration with a \<open>ValueError\<close>.
\<close>

function request_loop ::
  "api_call \<Rightarrow> int \<Rightarrow> int \<Rightarrow> int \<Rightarrow> fault option \<Rightarrow> world \<Rightarrow> (error + response) \<times> world" where
  "request_loop c attempt max_retries retry_delay last_exception w =
     (if attempt > max_retries then (Inl (ConnectivityError last_exception), w)
      else
        (case requests_request c w of
           (Answer r, w1) \<Rightarrow> (raise_for_status r, w1)
         | (ConnectionFailure, w1) \<Rightarrow>
             if attempt < max_retries
             then if retry_delay < 0
                  then (Inl SleepValueError,
                        logger (ConnectRetry retry_delay attempt max_retries) w1)
                  else request_loop c (attempt + 1) max_retries retry_delay
                         (Some ConnectionFault)
                         (time_sleep (of_int retry_delay)
                            (logger (ConnectRetry retry_delay attempt max_retries) w1))
             else request_loop c (attempt + 1) max_retries retry_delay
                    (Some ConnectionFault) w1
         | (TimedOut, w1) \<Rightarrow>
             if attempt < max_retries
             then if retry_delay < 0
                  then (Inl SleepValueError,
                        logger (TimeoutRetry retry_delay attempt max_retries) w1)
                  else request_loop c (attempt + 1) max_retries retry_delay
                         (Some TimeoutFault)
                         (time_sleep (of_int retry_delay)
                            (logger (TimeoutRetry retry_delay attempt max_retries) w1))
             else request_loop c (attempt + 1) max_retries retry_delay
                    (Some TimeoutFault) w1
         | (OtherFailure, w1) \<Rightarrow> (Inl OtherRequestError, w1)))"
  by pat_completeness auto
termination
  by (relation "measure (\<lambda>(c, attempt, max_retries, rest). nat (max_retries + 1 - attempt))")
    auto

declare request_loop.simps [simp del]

definition request :: "api_call \<Rightarrow> int \<Rightarrow> int \<Rightarrow> world \<Rightarrow> (error + response) \<times> world" where
  "request c max_retries retry_delay w =
     request_loop c 1 max_retries retry_delay None
       (wait (rate_category c) (silent_rate c) w)"

section \<open>Token cache and refresh (auth.py, AuthManager)\<close>

definition BASE_URL :: string where
  "BASE_URL = ''https://open-api.chanjing.cc''"

definition config_changed :: "auth_manager \<Rightarrow> bool" where
  "config_changed a \<longleftrightarrow> Some (config_hash a) \<noteq> token_config_hash a"

text \<open>\<open>AuthManager.reset\<close>\<close>

definition reset :: "world \<Rightarrow> world" where
  "reset w = w\<lparr>auth := (auth w)\<lparr>token := None, token_expire := Num 0, token_config_hash := None\<rparr>\<rparr>"

text \<open>
  \<open>_load_token_cache\<close>: nothing happens when the file does not exist; a file that
  cannot be read as a JSON object raises inside the \<open>try\<close>, which clears the three
  fields; otherwise the three fields are read with their defaults, the expiry as the
  file has it, a number or not.
\<close>

definition load_token_cache :: "world \<Rightarrow> world" where
  "load_token_cache w =
     (case token_cache_file w of
        NoCache \<Rightarrow> w
      | BadCache \<Rightarrow>
          w\<lparr>auth := (auth w)\<lparr>token := None, token_expire := Num 0, token_config_hash := None\<rparr>\<rparr>
      | Cache t e h \<Rightarrow>
          w\<lparr>auth := (auth w)\<lparr>token := t,
                                token_expire := (case e of None \<Rightarrow> Num 0 | Some x \<Rightarrow> x),
                                token_config_hash := h\<rparr>\<rparr>)"

definition save_token_cache :: "world \<Rightarrow> world" where
  "save_token_cache w =
     (if cache_writable w
      then w\<lparr>token_cache_file :=
               Cache (token (auth w)) (Some (token_expire (auth w)))
                 (Some (config_hash (auth w)))\<rparr>
      else logger SaveFailed w)"

text \<open>
  \<open>_refresh_token(api)\<close>. The parameter \<open>api\<close> is the \<open>json_request\<close> method of the
  client that is passed in; its first argument is the flag \<open>_retried_auth\<close>.
\<close>

definition refresh_token ::
  "(bool \<Rightarrow> api_call \<Rightarrow> world \<Rightarrow> (error + envelope) \<times> world) \<Rightarrow> world \<Rightarrow>
     (error + unit) \<times> world" where
  "refresh_token api w =
     (case api True
             \<lparr>http_method = ''POST'', url = BASE_URL @ ''/open/v1/access_token'',
              rate_category = ''default'', silent_rate = False, headers = [],
              args = [(''app_id'', app_id (auth w)), (''secret_key'', secret_key (auth w))]\<rparr>
             (logger FetchingToken w) of
        (Inl e, w1) \<Rightarrow> (Inl e, w1)
      | (Inr result, w1) \<Rightarrow>
          (case data result of
             PayloadNotObject \<Rightarrow> (Inl PayloadError, w1)
           | PayloadMissing \<Rightarrow>
               (Inl EmptyTokenError,
                w1\<lparr>auth := (auth w1)\<lparr>token := None,
                                       token_expire := Num (now w1 + 24 * 3600),
                                       token_config_hash := Some (config_hash (auth w1))\<rparr>\<rparr>)
           | PayloadObject t \<Rightarrow>
               (let w2 = w1\<lparr>auth := (auth w1)\<lparr>token := t,
                                                 token_expire := Num (now w1 + 24 * 3600),
                                                 token_config_hash :=
                                                   Some (config_hash (auth w1))\<rparr>\<rparr>
                in if \<not> truthy t then (Inl EmptyTokenError, w2)
                   else (Inr (), logger TokenStored (save_token_cache w2)))))"

text \<open>
  The comparison \<open>now < self._token_expire - 300\<close>: the subtraction raises a
  \<open>TypeError\<close> when the expiry is not a number; a comparison with \<open>NaN\<close> is false.
\<close>

definition before_expiry :: "real \<Rightarrow> expiry \<Rightarrow> error + bool" where
  "before_expiry t e =
     (case e of
        Num x \<Rightarrow> Inr (t < x - 300)
      | PlusInfinity \<Rightarrow> Inr True
      | MinusInfinity \<Rightarrow> Inr False
      | NotANumber \<Rightarrow> Inr False
      | NotNumeric \<Rightarrow> Inl TypeError)"

text \<open>
  The condition \<open>self._token and now < self._token_expire - 300\<close>: the comparison is
  evaluated only when the token is truthy.
\<close>

definition token_usable :: "real \<Rightarrow> auth_manager \<Rightarrow> error + bool" where
  "token_usable t a =
     (if truthy (token a) then before_expiry t (token_expire a) else Inr False)"

text \<open>
  The block of \<open>get_token\<close> under \<open>if self._token is None\<close>, with \<open>t\<close> the time read
  at the start of \<open>get_token\<close>: the block raises, or returns a token (\<open>Some\<close>), or
  control leaves the block and reaches the refresh (\<open>None\<close>).
\<close>

definition from_disk_cache :: "real \<Rightarrow> world \<Rightarrow> (error + pystr option) \<times> world" where
  "from_disk_cache t w1 =
     (let w' = load_token_cache w1
      in case token_usable t (auth w') of
           Inl e \<Rightarrow> (Inl e, w')
         | Inr usable \<Rightarrow>
             if usable \<and> \<not> config_changed (auth w')
             then (Inr (token (auth w')), logger UsingCachedToken w')
             else if config_changed (auth w')
             then (Inr None,
                   w'\<lparr>auth := (auth w')\<lparr>token := None, token_expire := Num 0,
                                          token_config_hash := None\<rparr>\<rparr>)
             else (Inr None, w'))"

text \<open>\<open>get_token(api)\<close>\<close>

definition get_token ::
  "(bool \<Rightarrow> api_call \<Rightarrow> world \<Rightarrow> (error + envelope) \<times> world) \<Rightarrow> world \<Rightarrow>
     (error + pystr) \<times> world" where
  "get_token api w =
     (let t = now w;
          w1 = (if config_changed (auth w)
                then w\<lparr>auth := (auth w)\<lparr>token := None, token_expire := Num 0,
                                        token_config_hash := None\<rparr>\<rparr>
                else w)
      in case token_usable t (auth w1) of
           Inl e \<Rightarrow> (Inl e, w1)
         | Inr usable \<Rightarrow>
             if usable then (Inr (the (token (auth w1))), w1)
             else
               (case (if token (auth w1) = None then from_disk_cache t w1
                      else (Inr None, w1)) of
                  (Inl e, w2) \<Rightarrow> (Inl e, w2)
                | (Inr (Some tok), w2) \<Rightarrow> (Inr tok, w2)
                | (Inr None, w2) \<Rightarrow>
                    (case refresh_token api w2 of
                       (Inl e, w3) \<Rightarrow> (Inl e, w3)
                     | (Inr u, w3) \<Rightarrow> (Inr (the (token (auth w3))), w3))))"

section \<open>JSON business layer (api.py, ApiClient.json_request)\<close>

text \<open>The default of \<open>result.get("msg", ...)\<close>: the four characters for "unknown error".\<close>

definition unknown_error_text :: pystr where
  "unknown_error_text = [26410, 30693, 38169, 35823]"

definition auth_expired :: "int option \<Rightarrow> bool" where
  "auth_expired c \<longleftrightarrow> c = Some 10400 \<or> c = Some 10401"

text \<open>\<open>headers["access_token"] = new_token\<close> on a copy of the dictionary.\<close>

fun dict_set :: "string \<Rightarrow> pystr \<Rightarrow> (string \<times> pystr) list \<Rightarrow> (string \<times> pystr) list" where
  "dict_set k v [] = [(k, v)]"
| "dict_set k v ((k', v') # kvs) =
     (if k' = k then (k, v) # kvs else (k', v') # dict_set k v kvs)"

definition substitute_token :: "pystr \<Rightarrow> api_call \<Rightarrow> api_call" where
  "substitute_token new_token c =
     (if ''access_token'' \<in> fst ` set (headers c)
      then c\<lparr>headers := dict_set ''access_token'' new_token (headers c)\<rparr>
      else c)"

text \<open>
  The two callees of \<open>json_request\<close> that receive the client itself only ever call its
  \<open>json_request\<close> with the retry flag set.
\<close>

lemma refresh_token_cong [fundef_cong]:
  assumes "w = w'" and "\<And>c x. api True c x = api' True c x"
  shows "refresh_token api w = refresh_token api' w'"
  using assms by (simp add: refresh_token_def)

lemma get_token_cong [fundef_cong]:
  assumes "w = w'" and "\<And>c x. api True c x = api' True c x"
  shows "get_token api w = get_token api' w'"
proof -
  have "refresh_token api = refresh_token api'"
    using assms(2) by (intro ext refresh_token_cong [OF refl])
  then show ?thesis
    unfolding get_token_def assms(1) by (rule arg_cong)
qed

text \<open>
  \<open>json_request\<close>, with the flag \<open>_retried_auth\<close> as first argument. It calls
  \<open>request\<close> with the defaults \<open>max_retries = 3\<close> and \<open>retry_delay = 3\<close>.
\<close>

function json_request :: "bool \<Rightarrow> api_call \<Rightarrow> world \<Rightarrow> (error + envelope) \<times> world" where
  "json_request retried_auth c w =
     (case request c 3 3 w of
        (Inl e, w1) \<Rightarrow> (Inl e, w1)
      | (Inr response, w1) \<Rightarrow>
          (case body response of
             NotJson \<Rightarrow> (Inl JSONDecodeError, w1)
           | Json result \<Rightarrow>
               if code result = Some 0 then (Inr result, w1)
               else
                 (let m = (case msg result of None \<Rightarrow> unknown_error_text | Some x \<Rightarrow> x)
                  in if auth_expired (code result) \<and> \<not> retried_auth
                     then (case get_token json_request
                                  (reset (logger (TokenInvalid (code result)) w1)) of
                             (Inl e, w2) \<Rightarrow> (Inl e, w2)
                           | (Inr new_token, w2) \<Rightarrow>
                               json_request True (substitute_token new_token c) w2)
                     else if auth_expired (code result)
                     then (Inl (PermissionError (the (code result)) m), w1)
                     else (Inl (ApiError (code result) m), w1))))"
  by pat_completeness auto
termination
  by (relation "measure (\<lambda>(retried_auth, c, w). if retried_auth then 0 else 1)") auto

declare json_request.simps [simp del]

section \<open>Arithmetic on floats\<close>

text \<open>
  A Python float is an IEEE 754 binary64 number, and every operation rounds its exact
  result to the nearest float, ties going to the float with an even significand. A
  finite float is modelled by the real number it denotes.

  \<open>pow2 e\<close> is two to the power \<open>e\<close>; \<open>ilog2 n\<close> is the position of the highest bit of a
  positive integer; \<open>binade x\<close> is the exponent \<open>e\<close> with \<open>2^e \<le> |x| < 2^(e+1)\<close>.
\<close>

definition pow2 :: "int \<Rightarrow> real" where
  "pow2 e = (if 0 \<le> e then 2 ^ nat e else 1 / 2 ^ nat (- e))"

function ilog2 :: "int \<Rightarrow> int" where
  "ilog2 n = (if n < 2 then 0 else 1 + ilog2 (n div 2))"
  by auto
termination
  by (relation "measure nat") auto

declare ilog2.simps [simp del]

definition binade :: "real \<Rightarrow> int" where
  "binade x =
     (if 1 \<le> \<bar>x\<bar> then ilog2 \<lfloor>\<bar>x\<bar>\<rfloor>
      else - ilog2 (\<lceil>1 / \<bar>x\<bar>\<rceil> - 1) - 1)"

text \<open>Rounding to the nearest integer, a tie going to the even one.\<close>

definition round_half_even :: "real \<Rightarrow> int" where
  "round_half_even r =
     (let f = \<lfloor>r\<rfloor>
      in if r - of_int f < 1 / 2 then f
         else if 1 / 2 < r - of_int f then f + 1
         else if even f then f else f + 1)"

text \<open>
  The spacing of the floats around \<open>x\<close>: a significand has 53 bits, and below the
  smallest normal exponent \<open>- 1022\<close> the spacing stays that of the subnormal numbers.
  \<open>to_float x\<close> is \<open>x\<close> rounded to that grid, with no bound on the exponent; a result of
  magnitude \<open>2^1024\<close> or more is an overflow.
\<close>

definition ulp :: "real \<Rightarrow> real" where
  "ulp x = pow2 (max (binade x) (- 1022) - 52)"

definition to_float :: "real \<Rightarrow> real" where
  "to_float x = (if x = 0 then 0 else of_int (round_half_even (x / ulp x)) * ulp x)"

datatype pyfloat = Finite real | Infinite

text \<open>
  \<open>a / b\<close> on two integers is the correctly rounded quotient; it raises for a zero
  divisor and for a quotient too large for a float. \<open>a * b\<close> on floats (an integer
  operand such as \<open>100\<close> is converted exactly) overflows to an infinity. \<open>int(x)\<close>
  truncates towards zero and raises for an infinity.
\<close>

definition int_truediv :: "int \<Rightarrow> int \<Rightarrow> error + real" where
  "int_truediv a b =
     (if b = 0 then Inl ZeroDivisionError
      else (let r = to_float (of_int a / of_int b)
            in if pow2 1024 \<le> \<bar>r\<bar> then Inl OverflowError else Inr r))"

definition float_mul :: "real \<Rightarrow> real \<Rightarrow> pyfloat" where
  "float_mul a b =
     (let r = to_float (a * b) in if pow2 1024 \<le> \<bar>r\<bar> then Infinite else Finite r)"

definition py_int :: "real \<Rightarrow> int" where
  "py_int x = (if 0 \<le> x then \<lfloor>x\<rfloor> else \<lceil>x\<rceil>)"

definition int_of_float :: "pyfloat \<Rightarrow> error + int" where
  "int_of_float x = (case x of Finite r \<Rightarrow> Inr (py_int r) | Infinite \<Rightarrow> Inl OverflowError)"

section \<open>Upload progress stream (api.py, UploadProgress)\<close>

text \<open>
  The fields of an \<open>UploadProgress\<close>; \<open>on_progress\<close> says whether a callback was given,
  and \<open>invoked\<close> lists the percentages the callback has been called with.
\<close>

record upload_progress =
  up_data :: string
  total :: int
  pos :: int
  last_pct :: int
  on_progress :: bool
  invoked :: "int list"

definition init_upload :: "string \<Rightarrow> bool \<Rightarrow> upload_progress" where
  "init_upload d cb =
     \<lparr>up_data = d, total = int (length d), pos = 0, last_pct = - 20, on_progress = cb,
      invoked = []\<rparr>"

text \<open>\<open>int(self._pos / self._total * 100)\<close>, in the arithmetic of floats.\<close>

definition percent :: "int \<Rightarrow> int \<Rightarrow> error + int" where
  "percent p t =
     (case int_truediv p t of
        Inl e \<Rightarrow> Inl e
      | Inr q \<Rightarrow> int_of_float (float_mul q 100))"

text \<open>A slice bound of Python: a negative bound counts from the end, and both are clipped.\<close>

definition slice_index :: "int \<Rightarrow> nat \<Rightarrow> nat" where
  "slice_index i n = (if i < 0 then nat (max 0 (i + int n)) else min (nat i) n)"

definition py_slice :: "'a list \<Rightarrow> int \<Rightarrow> int \<Rightarrow> 'a list" where
  "py_slice xs i j =
     (let s = slice_index i (length xs); e = slice_index j (length xs)
      in take (e - s) (drop s xs))"

definition py_slice_from :: "'a list \<Rightarrow> int \<Rightarrow> 'a list" where
  "py_slice_from xs i = drop (slice_index i (length xs)) xs"

text \<open>
  \<open>read(size)\<close>, with \<open>None\<close> for the argument \<open>None\<close>. An exception of the percentage
  leaves the stream with its position already moved.
\<close>

definition read ::
  "int option \<Rightarrow> upload_progress \<Rightarrow> (error + string) \<times> upload_progress" where
  "read sz u =
     (if pos u \<ge> total u then (Inr [], u)
      else
        (let (chunk, u1) =
               (if sz = Some (- 1) \<or> sz = None
                then (py_slice_from (up_data u) (pos u), u\<lparr>pos := total u\<rparr>)
                else (let stop = min (pos u + the sz) (total u)
                      in (py_slice (up_data u) (pos u) stop, u\<lparr>pos := stop\<rparr>)))
         in if total u1 > 0
            then (case percent (pos u1) (total u1) of
                    Inl e \<Rightarrow> (Inl e, u1)
                  | Inr pct \<Rightarrow>
                      if pct \<ge> last_pct u1 + 20 \<or> pct \<ge> 100
                      then (Inr chunk,
                            u1\<lparr>last_pct := pct,
                               invoked := invoked u1 @ (if on_progress u1 then [pct] else [])\<rparr>)
                      else (Inr chunk, u1))
            else (Inr chunk, u1)))"

text \<open>
  A sequence of \<open>read\<close> calls on one stream, whether or not a call raises: the stream
  after the last of them.
\<close>

fun reads :: "int option list \<Rightarrow> upload_progress \<Rightarrow> upload_progress" where
  "reads [] u = u"
| "reads (sz # szs) u = reads szs (snd (read sz u))"

section \<open>Billing errors (api.py, check_billing_error)\<close>

text \<open>The five keywords, as code points.\<close>

definition BILLING_KEYWORDS :: "pystr list" where
  "BILLING_KEYWORDS =
     [[25187, 36153, 22833, 36133], [20313, 39069, 19981, 36275],
      [34633, 35910, 19981, 36275], [34633, 35910, 20313, 39069], [27424, 36153]]"

text \<open>\<open>kw in msg\<close> on strings: \<open>kw\<close> occurs in \<open>msg\<close> as a contiguous piece.\<close>

fun is_substring :: "pystr \<Rightarrow> pystr \<Rightarrow> bool" where
  "is_substring kw [] = (kw = [])"
| "is_substring kw (x # xs) = (take (length kw) (x # xs) = kw \<or> is_substring kw xs)"

text \<open>\<open>check_billing_error(msg)\<close>: \<open>Some\<close> of the exception it raises, \<open>None\<close> when it returns.\<close>

definition check_billing_error :: "pystr \<Rightarrow> error option" where
  "check_billing_error m =
     (if m = [] then None
      else if list_ex (\<lambda>kw. is_substring kw m) BILLING_KEYWORDS then Some (BillingError m)
      else None)"

section \<open>Polling loops (services, ApiClient._poll_file_status)\<close>

text \<open>
  A polling loop reads the clock at the top of each iteration and then queries the
  status of its job with \<open>json_request\<close>. Its environment is the list of these pairs,
  one per iteration: the time read, and the outcome of the query (an exception, or the
  payload of the reply). A run ends by raising, by returning, or, when the list is used
  up while the loop is still going, as \<open>Pending\<close> with the loop's variables. What a
  loop does besides is recorded as a list of notices: calls of the progress callback
  (stage, percent, message) and sleeps.
\<close>

datatype ('s, 'a) run = Raised error | Returned 'a | Pending 's

datatype stage = UploadVideo | UploadAudio | VideoSynthesis | Finished | VoiceClone | SpeechSynthesis

datatype message =
    CreatingTask | Synthesizing | SynthesisDone
  | Queued | Generating | Succeeded | Failed | UnknownStatus "int option"
  | WaitingToMake | Making | CloneDone

datatype notice = Progress stage int message | Wait real | Warned error

type_synonym 'd tick = "real \<times> (error + 'd)"

subsection \<open>Text to speech (services/tts.py)\<close>

text \<open>
  The payload \<open>data\<close> of a reply of the TTS state endpoint: \<open>status\<close>, \<open>errMsg\<close>,
  \<open>errReason\<close>, and \<open>url\<close> and \<open>duration\<close> of \<open>full\<close>. A reply without \<open>data\<close> or
  without \<open>status\<close> is \<open>None\<close>; subscripting it raises \<open>KeyError\<close>.
\<close>

record tts_data =
  tts_status :: int
  errMsg :: "pystr option"
  errReason :: "pystr option"
  full_url :: "pystr option"
  full_duration :: "real option"

definition estimated_pct :: "int \<Rightarrow> int" where
  "estimated_pct poll_count =
     (if poll_count \<le> 6 then min 90 (poll_count * 15) else min 95 (90 + (poll_count - 6)))"

text \<open>The text put around \<open>errReason\<close> in the failure message.\<close>

definition reason_open :: pystr where
  "reason_open = [65288, 21407, 22240, 58, 32]"

definition reason_close :: pystr where
  "reason_close = [65289]"

text \<open>The branch \<open>status == 9\<close> of \<open>TTSService._poll\<close>.\<close>

definition tts_finished :: "tts_data \<Rightarrow> error + (pystr \<times> real)" where
  "tts_finished d =
     (let err_msg = (case errMsg d of None \<Rightarrow> [] | Some m \<Rightarrow> m)
      in if err_msg \<noteq> []
         then (case check_billing_error err_msg of
                 Some e \<Rightarrow> Inl e
               | None \<Rightarrow>
                   (let err_reason = (case errReason d of None \<Rightarrow> [] | Some r \<Rightarrow> r)
                    in Inl (TTSFailed
                              (if err_reason \<noteq> []
                               then err_msg @ reason_open @ err_reason @ reason_close
                               else err_msg))))
         else (let audio_url = (case full_url d of None \<Rightarrow> [] | Some u \<Rightarrow> u);
                   duration = (case full_duration d of None \<Rightarrow> 0 | Some x \<Rightarrow> x)
               in if audio_url = [] then Inl TTSNoUrl else Inr (audio_url, duration)))"

text \<open>
  \<open>TTSService._poll\<close>; \<open>cb\<close> says whether a progress callback was given. The loop
  variables are \<open>poll_count\<close> and \<open>consecutive_errors\<close>.
\<close>

fun tts_poll ::
  "real \<Rightarrow> real \<Rightarrow> bool \<Rightarrow> tts_data option tick list \<Rightarrow> int \<Rightarrow> int \<Rightarrow> notice list \<Rightarrow>
     (int \<times> int, pystr \<times> real) run \<times> notice list" where
  "tts_poll start max_wait cb [] poll_count consecutive_errors tr =
     (Pending (poll_count, consecutive_errors), tr)"
| "tts_poll start max_wait cb ((t, q) # rest) poll_count consecutive_errors tr =
     (if t - start > max_wait then (Raised TimeoutError, tr)
      else
        (case q of
           Inl e \<Rightarrow>
             if consecutive_errors + 1 \<ge> 5 then (Raised (PollingFailed e), tr)
             else tts_poll start max_wait cb rest poll_count (consecutive_errors + 1)
                    (tr @ [Wait 5])
         | Inr None \<Rightarrow> (Raised KeyError, tr)
         | Inr (Some d) \<Rightarrow>
             if tts_status d = 9
             then (case tts_finished d of
                     Inl e \<Rightarrow> (Raised e, tr)
                   | Inr r \<Rightarrow> (Returned r, tr))
             else if tts_status d = 1
             then tts_poll start max_wait cb rest (poll_count + 1) 0
                    (tr @ (if cb then [Progress SpeechSynthesis
                                         (estimated_pct (poll_count + 1)) Synthesizing]
                           else [])
                        @ [Wait (if poll_count + 1 \<le> 10 then 3 else 5)])
             else tts_poll start max_wait cb rest (poll_count + 1) 0 (tr @ [Wait 5])))"

text \<open>
  \<open>TTSService.synthesize\<close>, with the outcome of the call that creates the task (an
  exception, or the \<open>task_id\<close> of the reply when it has one), the time read when
  \<open>_poll\<close> starts, and the environment of the polling loop. The result is the URL, the
  task and the duration of the \<open>TTSResult\<close>.
\<close>

definition synthesize ::
  "pystr \<Rightarrow> bool \<Rightarrow> error + pystr option \<Rightarrow> real \<Rightarrow> tts_data option tick list \<Rightarrow>
     (int \<times> int, pystr \<times> pystr \<times> real) run \<times> notice list" where
  "synthesize text cb created start ticks =
     (if text = [] \<or> strip text = [] then (Raised TextEmpty, [])
      else if length text > 4000 then (Raised (TextTooLong (length text)), [])
      else
        (let tr0 = (if cb then [Progress SpeechSynthesis 0 CreatingTask] else [])
         in case created of
              Inl e \<Rightarrow> (Raised e, tr0)
            | Inr None \<Rightarrow> (Raised KeyError, tr0)
            | Inr (Some task_id) \<Rightarrow>
                (case tts_poll start 600 cb ticks 0 0 tr0 of
                   (Raised e, tr) \<Rightarrow> (Raised e, tr)
                 | (Pending s, tr) \<Rightarrow> (Pending s, tr)
                 | (Returned (audio_url, duration), tr) \<Rightarrow>
                     (Returned (audio_url, task_id, duration),
                      tr @ (if cb then [Progress SpeechSynthesis 100 SynthesisDone]
                            else [])))))"

subsection \<open>Lip-sync (services/lip_sync.py)\<close>

text \<open>
  The payload of a reply of the lip-sync detail endpoint; every field is read with
  \<open>get\<close>, so each may be absent.
\<close>

record lip_data =
  lip_status :: "int option"
  lip_progress :: "int option"
  lip_msg :: "pystr option"
  video_url :: "pystr option"
  lip_duration :: "int option"

definition status_text :: "int option \<Rightarrow> message" where
  "status_text s =
     (if s = Some 0 then Queued else if s = Some 10 then Generating
      else if s = Some 20 then Succeeded else if s = Some 30 then Failed
      else UnknownStatus s)"

text \<open>
  \<open>LipSyncService._poll\<close>. The loop variables are \<open>last_progress\<close> and \<open>last_status\<close>.
  The status query is not inside a \<open>try\<close>.
\<close>

fun lip_poll ::
  "real \<Rightarrow> real \<Rightarrow> bool \<Rightarrow> lip_data tick list \<Rightarrow> int \<Rightarrow> int option \<Rightarrow> notice list \<Rightarrow>
     (int \<times> int option, pystr \<times> int) run \<times> notice list" where
  "lip_poll start max_wait cb [] last_progress last_status tr =
     (Pending (last_progress, last_status), tr)"
| "lip_poll start max_wait cb ((t, q) # rest) last_progress last_status tr =
     (if t - start > max_wait then (Raised TimeoutError, tr)
      else
        (case q of
           Inl e \<Rightarrow> (Raised e, tr)
         | Inr d \<Rightarrow>
             (let status = lip_status d;
                  api_progress = (case lip_progress d of None \<Rightarrow> 0 | Some p \<Rightarrow> p);
                  m = (case lip_msg d of None \<Rightarrow> [] | Some x \<Rightarrow> x);
                  changed = (status \<noteq> last_status \<or> api_progress \<noteq> last_progress);
                  tr1 = (if changed \<and> cb
                         then tr @ [Progress VideoSynthesis api_progress (status_text status)]
                         else tr);
                  last_status1 = (if changed then status else last_status);
                  last_progress1 = (if changed then api_progress else last_progress)
              in if status = Some 20
                 then (let url = (case video_url d of None \<Rightarrow> [] | Some u \<Rightarrow> u)
                       in if url = [] then (Raised LipSyncNoUrl, tr1)
                          else (Returned
                                  (url, (case lip_duration d of None \<Rightarrow> 0 | Some x \<Rightarrow> x)),
                                tr1))
                 else if status = Some 30
                 then (case check_billing_error m of
                         Some e \<Rightarrow> (Raised e, tr1)
                       | None \<Rightarrow> (Raised (LipSyncFailed m), tr1))
                 else lip_poll start max_wait cb rest last_progress1 last_status1
                        (tr1 @ [Wait 5]))))"

subsection \<open>Voice clone (services/voice_clone.py)\<close>

record clone_data =
  clone_status :: int
  clone_progress :: "int option"
  err_msg :: "pystr option"

text \<open>
  \<open>VoiceCloneService._poll_clone\<close>. The loop variables are \<open>last_status\<close>, \<open>last_pct\<close>
  and \<open>consecutive_errors\<close>.
\<close>

fun clone_poll ::
  "real \<Rightarrow> real \<Rightarrow> bool \<Rightarrow> clone_data option tick list \<Rightarrow> int \<Rightarrow> int \<Rightarrow> int \<Rightarrow>
     notice list \<Rightarrow> (int \<times> int \<times> int, unit) run \<times> notice list" where
  "clone_poll start max_wait cb [] last_status last_percent consecutive_errors tr =
     (Pending (last_status, last_percent, consecutive_errors), tr)"
| "clone_poll start max_wait cb ((t, q) # rest) last_status last_percent consecutive_errors tr =
     (if t - start > max_wait then (Raised TimeoutError, tr)
      else
        (case q of
           Inl e \<Rightarrow>
             if consecutive_errors + 1 \<ge> 5 then (Raised (PollingFailed e), tr)
             else clone_poll start max_wait cb rest last_status last_percent
                    (consecutive_errors + 1) (tr @ [Wait 5])
         | Inr None \<Rightarrow> (Raised KeyError, tr)
         | Inr (Some d) \<Rightarrow>
             (let status = clone_status d;
                  api_progress = (case clone_progress d of None \<Rightarrow> 0 | Some p \<Rightarrow> p)
              in if status = 2
                 then (Returned (),
                       tr @ (if cb then [Progress VoiceClone 100 CloneDone] else []))
                 else if status = 4
                 then (let m = (case err_msg d of None \<Rightarrow> unknown_error_text | Some x \<Rightarrow> x)
                       in case check_billing_error m of
                            Some e \<Rightarrow> (Raised e, tr)
                          | None \<Rightarrow> (Raised (CloneFailed m), tr))
                 else if status = 3 then (Raised CloneExpired, tr)
                 else if status = 99 then (Raised CloneDeleted, tr)
                 else if status \<noteq> last_status \<or> api_progress \<noteq> last_percent
                 then clone_poll start max_wait cb rest status api_progress 0
                        (tr @ (if cb
                               then [Progress VoiceClone api_progress
                                       (if status = 0 then WaitingToMake else Making)]
                               else [])
                            @ [Wait 5])
                 else clone_poll start max_wait cb rest last_status last_percent 0
                        (tr @ [Wait 5]))))"

subsection \<open>File synchronisation (api.py, ApiClient._poll_file_status)\<close>

text \<open>
  The payload of the file-detail reply is its \<open>status\<close>, absent or a number. The
  status query sits in a \<open>try\<close> that re-raises \<open>TimeoutError\<close> and \<open>RuntimeError\<close> and
  logs every other exception.
\<close>

fun file_poll ::
  "real \<Rightarrow> real \<Rightarrow> real \<Rightarrow> int option tick list \<Rightarrow> notice list \<Rightarrow>
     (unit, unit) run \<times> notice list" where
  "file_poll start poll_interval max_wait [] tr = (Pending (), tr)"
| "file_poll start poll_interval max_wait ((t, q) # rest) tr =
     (if t - start > max_wait then (Raised TimeoutError, tr)
      else
        (case q of
           Inl e \<Rightarrow>
             if is_TimeoutError e \<or> is_RuntimeError e
             then (Raised e, tr @ [Wait poll_interval])
             else file_poll start poll_interval max_wait rest
                    (tr @ [Wait poll_interval, Warned e])
         | Inr st \<Rightarrow>
             (let status = (case st of None \<Rightarrow> 0 | Some x \<Rightarrow> x)
              in if status = 1 then (Returned (), tr @ [Wait poll_interval])
                 else if status = 98 \<or> status = 99 \<or> status = 100
                 then (Raised (FileUnavailable status), tr @ [Wait poll_interval])
                 else file_poll start poll_interval max_wait rest
                        (tr @ [Wait poll_interval]))))"

section \<open>Notions used to state the properties\<close>

text \<open>The table of minimum intervals as the specification gives it.\<close>

definition min_interval :: "string \<Rightarrow> real" where
  "min_interval category =
     (if category = ''lip_sync'' \<or> category = ''voice_clone'' then 6
      else if category = ''tts'' then 1 / 2 else 1)"

text \<open>
  The outcomes of an HTTP exchange that the request layer retries, the exception each
  of them is, the line logged before the retry, and what any other outcome makes
  \<open>request\<close> return or raise.
\<close>

fun retryable :: "exchange \<Rightarrow> bool" where
  "retryable ConnectionFailure = True"
| "retryable TimedOut = True"
| "retryable x = False"

fun fault_of :: "exchange \<Rightarrow> fault option" where
  "fault_of ConnectionFailure = Some ConnectionFault"
| "fault_of TimedOut = Some TimeoutFault"
| "fault_of x = None"

fun retry_log :: "exchange \<Rightarrow> int \<Rightarrow> int \<Rightarrow> int \<Rightarrow> log_line" where
  "retry_log TimedOut d a m = TimeoutRetry d a m"
| "retry_log x d a m = ConnectRetry d a m"

fun final_result :: "exchange \<Rightarrow> error + response" where
  "final_result (Answer r) = raise_for_status r"
| "final_result x = Inl OtherRequestError"

text \<open>
  What \<open>j\<close> failed attempts followed by a retry leave in the trace, the first of them
  being attempt number \<open>a\<close> of \<open>m\<close>: the request, the log line, the sleep.
\<close>

definition retry_events ::
  "api_call \<Rightarrow> int \<Rightarrow> int \<Rightarrow> int \<Rightarrow> (nat \<Rightarrow> exchange) \<Rightarrow> nat \<Rightarrow> event list" where
  "retry_events c d m a nt j =
     concat (map (\<lambda>i. [Sent c, Logged (retry_log (nt i) d (a + int i) m), Slept (of_int d)])
               [0..<j])"

definition sent :: "api_call \<Rightarrow> world \<Rightarrow> world" where
  "sent c w = snd (requests_request c w)"

text \<open>
  The number of token refreshes a run has started: \<open>_refresh_token\<close> logs one line when
  it is entered, and nothing else logs that line.
\<close>

definition refreshes :: "world \<Rightarrow> nat" where
  "refreshes w = length (filter (\<lambda>e. e = Logged FetchingToken) (events w))"

text \<open>
  A cached token is usable at the time \<open>get_token\<close> is entered: it is non-empty, the
  time is more than 300 seconds before its expiry, and its fingerprint is the hash of
  the current credentials. Once for the token in memory, once for the token cache file.
\<close>

definition unexpired :: "real \<Rightarrow> expiry \<Rightarrow> bool" where
  "unexpired t e \<longleftrightarrow>
     (case e of Num x \<Rightarrow> t < x - 300 | PlusInfinity \<Rightarrow> True | _ \<Rightarrow> False)"

definition mem_valid :: "world \<Rightarrow> bool" where
  "mem_valid w \<longleftrightarrow>
     truthy (token (auth w)) \<and> unexpired (now w) (token_expire (auth w)) \<and>
     token_config_hash (auth w) = Some (config_hash (auth w))"

definition disk_valid :: "world \<Rightarrow> bool" where
  "disk_valid w \<longleftrightarrow>
     (case token_cache_file w of
        Cache t e h \<Rightarrow>
          truthy t \<and> unexpired (now w) (case e of None \<Rightarrow> Num 0 | Some x \<Rightarrow> x) \<and>
          h = Some (config_hash (auth w))
      | _ \<Rightarrow> False)"

definition disk_token :: "world \<Rightarrow> pystr option" where
  "disk_token w = (case token_cache_file w of Cache t e h \<Rightarrow> t | _ \<Rightarrow> None)"

text \<open>
  A cached token whose expiry cannot be compared with the time: a non-empty token in
  memory with the current fingerprint, or, when \<open>get_token\<close> finds no token in memory, a
  non-empty token in the cache file, stored in either case with an expiry that is not a
  number.
\<close>

definition mem_unreadable :: "world \<Rightarrow> bool" where
  "mem_unreadable w \<longleftrightarrow>
     truthy (token (auth w)) \<and> token_expire (auth w) = NotNumeric \<and>
     token_config_hash (auth w) = Some (config_hash (auth w))"

definition disk_unreadable :: "world \<Rightarrow> bool" where
  "disk_unreadable w \<longleftrightarrow>
     (token (auth w) = None \<or> token_config_hash (auth w) \<noteq> Some (config_hash (auth w))) \<and>
     (case token_cache_file w of
        Cache t e h \<Rightarrow> truthy t \<and> e = Some NotNumeric
      | _ \<Rightarrow> False)"

text \<open>A network that plays a list of outcomes and then repeats a last one for ever.\<close>

fun script :: "exchange list \<Rightarrow> exchange \<Rightarrow> nat \<Rightarrow> exchange" where
  "script [] d k = d"
| "script (x # xs) d 0 = x"
| "script (x # xs) d (Suc k) = script xs d k"

text \<open>A client that has just been constructed, on a network that only fails.\<close>

definition quiet_world :: world where
  "quiet_world =
     \<lparr>now = 1000, oversleep = (\<lambda>k. 0), net = script [] OtherFailure, events = [],
      timestamps = Map.empty,
      auth = \<lparr>app_id = ustr ''id'', secret_key = ustr ''key'', config_hash = ustr ''h1'',
              token = None, token_expire = Num 0, token_config_hash = None\<rparr>,
      token_cache_file = NoCache, cache_writable = True\<rparr>"

definition get_call :: api_call where
  "get_call =
     \<lparr>http_method = ''GET'', url = BASE_URL @ ''/open/v1/common/file_detail'',
      rate_category = ''default'', silent_rate = True,
      headers = [(''access_token'', ustr ''old'')], args = [(''id'', ustr ''f1'')]\<rparr>"

definition server_error :: response where
  "server_error = \<lparr>status_code = 500, body = NotJson\<rparr>"

text \<open>The reply of the token endpoint that issues the token \<open>t\<close>.\<close>

definition token_reply :: "pystr \<Rightarrow> exchange" where
  "token_reply t =
     Answer \<lparr>status_code = 200,
             body = Json \<lparr>code = Some 0, msg = None, data = PayloadObject (Some t)\<rparr>\<rparr>"

text \<open>
  A new client whose first exchange is answered with a token, and a new client that
  finds a usable token in its cache file.
\<close>

definition fresh_world :: world where
  "fresh_world = quiet_world\<lparr>net := script [token_reply (ustr ''tok'')] OtherFailure\<rparr>"

definition cached_world :: world where
  "cached_world =
     quiet_world\<lparr>token_cache_file := Cache (Some (ustr ''old'')) (Some (Num 5000)) (Some (ustr ''h1''))\<rparr>"

text \<open>
  A new client whose cache file holds a token with the current fingerprint and an
  expiry that is not a number, on a network whose token endpoint issues a token.
\<close>

definition unreadable_world :: world where
  "unreadable_world =
     quiet_world
       \<lparr>net := script [token_reply (ustr ''tok'')] OtherFailure,
        token_cache_file := Cache (Some (ustr ''old'')) (Some NotNumeric) (Some (ustr ''h1''))\<rparr>"

text \<open>
  The message an error carries, and what \<open>json_request\<close> makes of a response once the
  retry flag is set.
\<close>

definition msg_text :: "envelope \<Rightarrow> pystr" where
  "msg_text result = (case msg result of None \<Rightarrow> unknown_error_text | Some x \<Rightarrow> x)"

definition verdict :: "response \<Rightarrow> error + envelope" where
  "verdict r =
     (case body r of
        NotJson \<Rightarrow> Inl JSONDecodeError
      | Json result \<Rightarrow>
          if code result = Some 0 then Inr result
          else if auth_expired (code result)
          then Inl (PermissionError (the (code result)) (msg_text result))
          else Inl (ApiError (code result) (msg_text result)))"

text \<open>The requests a run has sent, in order.\<close>

fun sent_calls :: "event list \<Rightarrow> api_call list" where
  "sent_calls [] = []"
| "sent_calls (Sent c # es) = c # sent_calls es"
| "sent_calls (e # es) = sent_calls es"

text \<open>A business reply with the given code, and the call \<open>_refresh_token\<close> makes.\<close>

definition business_reply :: "int \<Rightarrow> exchange" where
  "business_reply c =
     Answer \<lparr>status_code = 200,
             body = Json \<lparr>code = Some c, msg = Some (ustr ''m''), data = PayloadMissing\<rparr>\<rparr>"

definition token_call :: "world \<Rightarrow> api_call" where
  "token_call w =
     \<lparr>http_method = ''POST'', url = BASE_URL @ ''/open/v1/access_token'',
      rate_category = ''default'', silent_rate = False, headers = [],
      args = [(''app_id'', app_id (auth w)), (''secret_key'', secret_key (auth w))]\<rparr>"

text \<open>
  A call that carries no \<open>access_token\<close> header, and three clients whose first request
  is answered with the code 10401: one is then issued a new token, one has its token
  request rejected as well, one holds the rejected token in memory and in its cache file.
\<close>

definition plain_call :: api_call where
  "plain_call =
     \<lparr>http_method = ''GET'', url = BASE_URL @ ''/open/v1/common/file_detail'',
      rate_category = ''default'', silent_rate = True,
      headers = [], args = [(''id'', ustr ''f1'')]\<rparr>"

definition expired_world :: world where
  "expired_world =
     quiet_world\<lparr>net := script [business_reply 10401, token_reply (ustr ''new''),
                               business_reply 0] OtherFailure\<rparr>"

definition rejected_world :: world where
  "rejected_world =
     quiet_world\<lparr>net := script [business_reply 10401, business_reply 10401] OtherFailure\<rparr>"

definition stale_world :: world where
  "stale_world =
     quiet_world
       \<lparr>net := script [business_reply 10401, business_reply 10401] OtherFailure,
        auth := (auth quiet_world)\<lparr>token := Some (ustr ''old''), token_expire := Num 5000,
                                   token_config_hash := Some (ustr ''h1'')\<rparr>,
        token_cache_file := Cache (Some (ustr ''old'')) (Some (Num 5000)) (Some (ustr ''h1''))\<rparr>"

text \<open>
  Two successive percentages passed to the upload callback are in order when the second
  is at least 20 above the first or is 100. The invariant of the stream: the position
  never passes the total, the percentages passed so far lie between 0 and 100, do not
  decrease and are in order pairwise, \<open>last_pct\<close> is the last of them (\<open>- 20\<close> before
  the first), and once a non-empty buffer is read to its end the last one is 100.
\<close>

definition step_ok :: "int \<Rightarrow> int \<Rightarrow> bool" where
  "step_ok a b \<longleftrightarrow> a + 20 \<le> b \<or> b = 100"

definition upload_inv :: "upload_progress \<Rightarrow> bool" where
  "upload_inv u \<longleftrightarrow>
     pos u \<le> total u \<and>
     list_all (\<lambda>p. 0 \<le> p \<and> p \<le> 100) (invoked u) \<and>
     sorted (invoked u) \<and> successively step_ok (invoked u) \<and>
     (on_progress u \<longrightarrow> last_pct u = last (- 20 # invoked u)) \<and>
     (on_progress u \<and> 0 < total u \<and> pos u = total u \<longrightarrow>
        invoked u \<noteq> [] \<and> last (invoked u) = 100)"

text \<open>
  Continuing a run: a pending run goes on with the loop variables and the trace it
  stopped with; a run that has raised or returned stays as it is.
\<close>

definition resume ::
  "('s \<Rightarrow> notice list \<Rightarrow> ('s, 'a) run \<times> notice list) \<Rightarrow> ('s, 'a) run \<times> notice list \<Rightarrow>
     ('s, 'a) run \<times> notice list" where
  "resume k r = (case r of (Pending s, tr) \<Rightarrow> k s tr | other \<Rightarrow> other)"

text \<open>A run of failed status queries, each with the time read before it.\<close>

definition failures :: "(real \<times> error) list \<Rightarrow> 'd tick list" where
  "failures fs = map (\<lambda>(t, e). (t, Inl e)) fs"

text \<open>All of these queries are made before the loop's time limit is passed.\<close>

definition in_time :: "real \<Rightarrow> real \<Rightarrow> (real \<times> error) list \<Rightarrow> bool" where
  "in_time start max_wait fs \<longleftrightarrow> list_all (\<lambda>(t, e). t - start \<le> max_wait) fs"

text \<open>
  The exceptions the file-synchronisation loop logs and survives: those that are
  neither a \<open>TimeoutError\<close> nor a \<open>RuntimeError\<close>.
\<close>

definition transient :: "error \<Rightarrow> bool" where
  "transient e \<longleftrightarrow> \<not> is_TimeoutError e \<and> \<not> is_RuntimeError e"

text \<open>The exception \<open>request\<close> raises when its retries are used up.\<close>

definition offline :: error where
  "offline = ConnectivityError (Some ConnectionFault)"

text \<open>
  Two replies of the TTS state endpoint: a failure whose message holds the last billing
  keyword between other text, and a task still being worked on.
\<close>

definition billing_reply :: tts_data where
  "billing_reply =
     \<lparr>tts_status = 9, errMsg = Some (ustr ''x'' @ [27424, 36153] @ ustr ''y''),
      errReason = None, full_url = None, full_duration = None\<rparr>"

definition working_reply :: tts_data where
  "working_reply =
     \<lparr>tts_status = 1, errMsg = None, errReason = None, full_url = None, full_duration = None\<rparr>"

text \<open>
  The percentages passed to the progress callback for one stage, in order; and the
  progress values the server reports to the lip-sync and voice-clone loops, in order.
\<close>

fun percents :: "stage \<Rightarrow> notice list \<Rightarrow> int list" where
  "percents s [] = []"
| "percents s (Progress s' p m # ns) = (if s' = s then p # percents s ns else percents s ns)"
| "percents s (n # ns) = percents s ns"

fun lip_reported :: "lip_data tick list \<Rightarrow> int list" where
  "lip_reported [] = []"
| "lip_reported ((t, Inr d) # ticks) =
     (case lip_progress d of None \<Rightarrow> 0 | Some p \<Rightarrow> p) # lip_reported ticks"
| "lip_reported ((t, Inl e) # ticks) = lip_reported ticks"

fun clone_reported :: "clone_data option tick list \<Rightarrow> int list" where
  "clone_reported [] = []"
| "clone_reported ((t, Inr (Some d)) # ticks) =
     (case clone_progress d of None \<Rightarrow> 0 | Some p \<Rightarrow> p) # clone_reported ticks"
| "clone_reported ((t, q) # ticks) = clone_reported ticks"

text \<open>Replies of the lip-sync and voice-clone detail endpoints with a status and a progress.\<close>

definition lip_reply :: "int \<Rightarrow> int \<Rightarrow> lip_data" where
  "lip_reply s p =
     \<lparr>lip_status = Some s, lip_progress = Some p, lip_msg = None, video_url = None,
      lip_duration = None\<rparr>"

definition clone_reply :: "int \<Rightarrow> int \<Rightarrow> clone_data" where
  "clone_reply s p = \<lparr>clone_status = s, clone_progress = Some p, err_msg = None\<rparr>"

section \<open>Theorems\<close>

subsection \<open>Credential resolution\<close>

lemma strip_Nil: "strip [] = []"
  by (simp add: strip_def)

lemma strip_all_space: "all_space s \<Longrightarrow> strip s = []"
proof -
  assume "all_space s"
  then have "\<forall>x\<in>set s. is_space x"
    by (simp add: all_space_def list_all_iff)
  then have "dropWhile is_space s = []"
    by (induction s) auto
  then show ?thesis
    unfolding strip_def by (simp only: rev.simps dropWhile.simps)
qed

lemma truthy_iff: "truthy x \<longleftrightarrow> (\<exists>s. x = Some s \<and> s \<noteq> [])"
  by (cases x) auto

lemma from_config_file_eq: "from_config_file cfg = file_pair cfg"
proof (cases cfg)
  case (ConfigObject fa fs)
  then show ?thesis
    by (cases fa; cases fs) (simp_all add: file_pair_def strip_Nil)
qed (simp_all add: file_pair_def)

text \<open>
  C4. Credential resolution returns the trimmed explicit arguments whenever both are
  non-empty; otherwise the environment pair whenever both variables are non-empty after
  trimming; otherwise the pair of the configuration file whenever both of its fields are
  non-empty after trimming; otherwise it fails with the configuration error.
\<close>

theorem resolve_credentials_priority:
  "resolve_credentials arg_id arg_key env cfg =
     (case explicit_pair arg_id arg_key of
        Some p \<Rightarrow> Inr p
      | None \<Rightarrow>
          (case env_pair env of
             Some p \<Rightarrow> Inr p
           | None \<Rightarrow>
               (case file_pair cfg of
                  Some p \<Rightarrow> Inr p
                | None \<Rightarrow> Inl ConfigurationError)))"
proof (cases "truthy arg_id \<and> truthy arg_key")
  case True
  then obtain a s where "arg_id = Some a" "a \<noteq> []" "arg_key = Some s" "s \<noteq> []"
    by (auto simp: truthy_iff)
  then show ?thesis
    by (simp add: resolve_credentials_def explicit_pair_def)
next
  case False
  then have "explicit_pair arg_id arg_key = None"
    by (cases arg_id; cases arg_key) (auto simp: explicit_pair_def)
  with False show ?thesis
    by (auto simp: resolve_credentials_def env_pair_def Let_def from_config_file_eq)
qed

theorem resolve_credentials_priority_witness:
  "resolve_credentials None (Some (ustr ''k''))
     [''CHANJING_APP_ID'' \<mapsto> ustr '' id '', ''CHANJING_SECRET_KEY'' \<mapsto> ustr ''key '']
     (ConfigObject (JStr (ustr ''f'')) (JStr (ustr ''g'')))
   = Inr (ustr ''id'', ustr ''key'')"
  using resolve_credentials_priority
    [of None "Some (ustr ''k'')"
        "[''CHANJING_APP_ID'' \<mapsto> ustr '' id '', ''CHANJING_SECRET_KEY'' \<mapsto> ustr ''key '']"
        "ConfigObject (JStr (ustr ''f'')) (JStr (ustr ''g''))"]
  by (simp add: explicit_pair_def env_pair_def env_get_stripped_def strip_def ustr_def
      is_space_def)

text \<open>
  C10. When both explicit arguments are non-empty strings made only of whitespace,
  resolution succeeds with the pair of empty strings, whatever the environment and the
  configuration file hold.
\<close>

theorem resolve_credentials_whitespace_args:
  assumes "a \<noteq> []" and "all_space a" and "s \<noteq> []" and "all_space s"
  shows "resolve_credentials (Some a) (Some s) env cfg = Inr ([], [])"
  using assms by (simp add: resolve_credentials_def strip_all_space)

theorem resolve_credentials_whitespace_args_witness:
  "ustr ''  '' \<noteq> [] \<and> all_space (ustr ''  '') \<and> ustr [CHR 0x09] \<noteq> [] \<and>
   all_space (ustr [CHR 0x09]) \<and>
   resolve_credentials (Some (ustr ''  '')) (Some (ustr [CHR 0x09]))
     [''CHANJING_APP_ID'' \<mapsto> ustr ''id'', ''CHANJING_SECRET_KEY'' \<mapsto> ustr ''key'']
     (ConfigObject (JStr (ustr ''f'')) (JStr (ustr ''g''))) = Inr ([], [])"
proof -
  have h: "ustr ''  '' \<noteq> []" "all_space (ustr ''  '')" "ustr [CHR 0x09] \<noteq> []"
    "all_space (ustr [CHR 0x09])"
    by (simp_all add: ustr_def all_space_def is_space_def)
  from resolve_credentials_whitespace_args [OF h] h show ?thesis by simp
qed


subsection \<open>Rate limiter\<close>

lemma interval_lookup:
  "(case INTERVALS category of Some i \<Rightarrow> i | None \<Rightarrow> the (INTERVALS ''default''))
     = min_interval category"
  by (simp add: INTERVALS_def min_interval_def)

lemma wait_now_lower:
  assumes "0 \<le> oversleep w 0"
  shows "timestamps (wait category silent w) category = Some (now (wait category silent w))"
    and "now w \<le> now (wait category silent w)"
    and "(case timestamps w category of Some t \<Rightarrow> t | None \<Rightarrow> 0) + min_interval category
           \<le> now (wait category silent w)"
  using assms
  by (auto simp: wait_def Let_def interval_lookup time_sleep_def logger_def)

text \<open>
  C8. Two calls of \<open>wait\<close> in one category, the second entered \<open>gap\<close> seconds after the
  first returned: the time at which the second returns is at least the category's
  minimum interval (6 s for lip-sync and voice-clone, 0.5 s for TTS, 1 s otherwise)
  after the time at which the first returned, and the timestamp each call stores is the
  time at which it returns, that is, the time after any sleep it needed.
\<close>

theorem wait_back_to_back:
  assumes "\<forall>k. 0 \<le> oversleep w k" and "0 \<le> gap"
  shows "let w1 = wait category s1 w;
             w2 = wait category s2 (w1\<lparr>now := now w1 + gap\<rparr>)
         in timestamps w1 category = Some (now w1) \<and>
            timestamps w2 category = Some (now w2) \<and>
            now w1 + min_interval category \<le> now w2 \<and>
            now w1 + gap \<le> now w2"
proof -
  define w1 where "w1 = wait category s1 w"
  define v where "v = w1\<lparr>now := now w1 + gap\<rparr>"
  have os: "0 \<le> oversleep v 0"
    using assms(1) by (auto simp: v_def w1_def wait_def Let_def time_sleep_def logger_def)
  have t1: "timestamps w1 category = Some (now w1)"
    unfolding w1_def using assms(1) by (intro wait_now_lower(1)) simp
  then have tv: "timestamps v category = Some (now w1)" by (simp add: v_def)
  from wait_now_lower [OF os, of category s2] tv t1
  show ?thesis by (simp add: Let_def w1_def [symmetric] v_def [symmetric]) (simp add: v_def)
qed

theorem wait_back_to_back_witness:
  "(\<forall>k. 0 \<le> oversleep quiet_world k) \<and> (0::real) \<le> 2 \<and>
   (let w1 = wait ''lip_sync'' False quiet_world;
        w2 = wait ''lip_sync'' True (w1\<lparr>now := now w1 + 2\<rparr>)
    in timestamps w1 ''lip_sync'' = Some (now w1) \<and>
       timestamps w2 ''lip_sync'' = Some (now w2) \<and>
       now w1 + min_interval ''lip_sync'' \<le> now w2 \<and>
       now w1 + 2 \<le> now w2 \<and>
       now w1 = 1000 \<and> now w2 = 1006 \<and> events w2 = [Slept 4])"
proof -
  have h: "\<forall>k. 0 \<le> oversleep quiet_world k" "(0::real) \<le> 2"
    by (simp_all add: quiet_world_def)
  have n1: "now (wait ''lip_sync'' False quiet_world) = 1000"
    by (simp add: wait_def quiet_world_def INTERVALS_def Let_def)
  have n2: "now (wait ''lip_sync'' True ((wait ''lip_sync'' False quiet_world)\<lparr>now := 1002\<rparr>)) = 1006"
    by (simp add: wait_def quiet_world_def INTERVALS_def Let_def time_sleep_def)
  have ev: "events (wait ''lip_sync'' True ((wait ''lip_sync'' False quiet_world)\<lparr>now := 1002\<rparr>))
     = [Slept 4]"
    by (simp add: wait_def quiet_world_def INTERVALS_def Let_def time_sleep_def)
  from wait_back_to_back [OF h, of "''lip_sync''" False True] n1 n2 ev h
  show ?thesis
    by (simp add: Let_def)
qed


subsection \<open>HTTP request layer\<close>

lemma retry_events_0: "retry_events c d m a nt 0 = []"
  by (simp add: retry_events_def)

lemma retry_events_Suc:
  "retry_events c d m a nt (Suc j) =
     [Sent c, Logged (retry_log (nt 0) d a m), Slept (of_int d)] @
     retry_events c d m (a + 1) (\<lambda>k. nt (Suc k)) j"
proof -
  have "[0..<Suc j] = 0 # map Suc [0..<j]"
    by (simp add: upt_conv_Cons map_Suc_upt del: upt_Suc)
  then show ?thesis
    by (simp add: retry_events_def comp_def add.assoc del: upt_Suc)
qed

lemma request_loop_over:
  "m < a \<Longrightarrow> request_loop c a m d lastx w = (Inl (ConnectivityError lastx), w)"
  by (subst request_loop.simps) simp

lemma request_loop_final:
  "a \<le> m \<Longrightarrow> \<not> retryable (net w 0) \<Longrightarrow>
     request_loop c a m d lastx w = (final_result (net w 0), sent c w)"
  by (subst request_loop.simps, cases "net w 0")
    (simp_all add: requests_request_def sent_def)

lemma request_loop_retry:
  "a < m \<Longrightarrow> retryable (net w 0) \<Longrightarrow> 0 \<le> d \<Longrightarrow>
     request_loop c a m d lastx w =
       request_loop c (a + 1) m d (fault_of (net w 0))
         (time_sleep (of_int d) (logger (retry_log (net w 0) d a m) (sent c w)))"
  by (subst request_loop.simps, cases "net w 0")
    (simp_all add: requests_request_def sent_def)

lemma request_loop_last:
  "a = m \<Longrightarrow> retryable (net w 0) \<Longrightarrow>
     request_loop c a m d lastx w =
       (Inl (ConnectivityError (fault_of (net w 0))), sent c w)"
  by (subst request_loop.simps, cases "net w 0")
    (simp_all add: requests_request_def sent_def request_loop_over)

lemma net_after_retry:
  "net (time_sleep x (logger l (sent c w))) = (\<lambda>k. net w (Suc k))"
  by (simp add: time_sleep_def logger_def sent_def requests_request_def)

lemma events_after_retry:
  "events (time_sleep x (logger l (sent c w))) = events w @ [Sent c, Logged l, Slept x]"
  by (simp add: time_sleep_def logger_def sent_def requests_request_def)

lemma events_sent: "events (sent c w) = events w @ [Sent c]"
  by (simp add: sent_def requests_request_def)

lemma request_loop_stops:
  assumes "\<forall>i<j. retryable (net w i)" and "\<not> retryable (net w j)"
    and "a + int j \<le> m" and "0 \<le> d"
  shows "fst (request_loop c a m d lastx w) = final_result (net w j) \<and>
         events (snd (request_loop c a m d lastx w)) =
           events w @ retry_events c d m a (net w) j @ [Sent c]"
  using assms
proof (induction j arbitrary: a lastx w)
  case 0
  then show ?case
    by (simp add: request_loop_final retry_events_0 events_sent)
next
  case (Suc j)
  let ?w2 = "time_sleep (of_int d) (logger (retry_log (net w 0) d a m) (sent c w))"
  have step: "request_loop c a m d lastx w =
                request_loop c (a + 1) m d (fault_of (net w 0)) ?w2"
    using Suc.prems by (intro request_loop_retry) auto
  have "\<forall>i<j. retryable (net ?w2 i)" "\<not> retryable (net ?w2 j)" "a + 1 + int j \<le> m"
    using Suc.prems by (simp_all add: net_after_retry)
  from Suc.IH [OF this Suc.prems(4), of "fault_of (net w 0)"]
  show ?case
    by (simp add: step net_after_retry events_after_retry retry_events_Suc)
qed

lemma request_loop_exhausts:
  assumes "\<forall>i\<le>j. retryable (net w i)" and "a + int j = m" and "0 \<le> d"
  shows "fst (request_loop c a m d lastx w) =
           Inl (ConnectivityError (fault_of (net w j))) \<and>
         events (snd (request_loop c a m d lastx w)) =
           events w @ retry_events c d m a (net w) j @ [Sent c]"
  using assms
proof (induction j arbitrary: a lastx w)
  case 0
  then show ?case
    by (simp add: request_loop_last retry_events_0 events_sent)
next
  case (Suc j)
  let ?w2 = "time_sleep (of_int d) (logger (retry_log (net w 0) d a m) (sent c w))"
  have step: "request_loop c a m d lastx w =
                request_loop c (a + 1) m d (fault_of (net w 0)) ?w2"
    using Suc.prems by (intro request_loop_retry) auto
  have "\<forall>i\<le>j. retryable (net ?w2 i)" "a + 1 + int j = m"
    using Suc.prems by (simp_all add: net_after_retry)
  from Suc.IH [OF this Suc.prems(3), of "fault_of (net w 0)"]
  show ?case
    by (simp add: step net_after_retry events_after_retry retry_events_Suc)
qed

lemma wait_net: "net (wait category silent w) = net w"
  by (simp add: wait_def Let_def time_sleep_def logger_def)

text \<open>
  With a negative retry delay, a failure that would be retried is logged, and then
  \<open>time.sleep\<close> raises: the loop ends there.
\<close>

lemma request_loop_refused:
  "a < m \<Longrightarrow> retryable (net w 0) \<Longrightarrow> d < 0 \<Longrightarrow>
     request_loop c a m d lastx w =
       (Inl SleepValueError, logger (retry_log (net w 0) d a m) (sent c w))"
  by (subst request_loop.simps, cases "net w 0")
    (simp_all add: requests_request_def sent_def)

text \<open>
  C3 (amended). A call \<open>request\<close> with \<open>max_retries = n\<close>. With a retry delay that is
  not negative: if the first \<open>j < n\<close> exchanges fail with a connection error or a timeout
  and exchange \<open>j\<close> does anything else, then each of those failures is followed by the
  log line, a sleep of the retry delay and the next attempt, and the outcome of exchange
  \<open>j\<close> is final: its response is returned, or its HTTP status error or other exception
  is raised, and nothing is sent after it. If all \<open>n\<close> exchanges fail with a connection
  error or a timeout, the first \<open>n - 1\<close> are each followed by the delay and another
  attempt, the last by no sleep, and the connectivity error raised wraps the last of
  these exceptions. Both also hold with a negative delay when no retry is due (\<open>j = 0\<close>,
  or \<open>n = 1\<close>). With \<open>max_retries\<close> zero or negative nothing is sent and the
  connectivity error wraps no exception. With a negative retry delay and \<open>n > 1\<close>, a
  connection error or timeout of the first exchange is logged, \<open>time.sleep\<close> raises its
  \<open>ValueError\<close>, and no second attempt is made.
\<close>

theorem request_retry_policy:
  "(j < n \<and> (0 \<le> retry_delay \<or> j = 0) \<and>
    (\<forall>i<j. retryable (net w i)) \<and> \<not> retryable (net w j) \<longrightarrow>
        fst (request c (int n) retry_delay w) = final_result (net w j) \<and>
        events (snd (request c (int n) retry_delay w)) =
          events (wait (rate_category c) (silent_rate c) w) @
          retry_events c retry_delay (int n) 1 (net w) j @ [Sent c]) \<and>
   (0 < n \<and> (0 \<le> retry_delay \<or> n = 1) \<and> (\<forall>i<n. retryable (net w i)) \<longrightarrow>
        fst (request c (int n) retry_delay w) =
          Inl (ConnectivityError (fault_of (net w (n - 1)))) \<and>
        events (snd (request c (int n) retry_delay w)) =
          events (wait (rate_category c) (silent_rate c) w) @
          retry_events c retry_delay (int n) 1 (net w) (n - 1) @ [Sent c]) \<and>
   (m \<le> 0 \<longrightarrow>
        request c m retry_delay w =
          (Inl (ConnectivityError None), wait (rate_category c) (silent_rate c) w)) \<and>
   (retry_delay < 0 \<and> 1 < n \<and> retryable (net w 0) \<longrightarrow>
        fst (request c (int n) retry_delay w) = Inl SleepValueError \<and>
        events (snd (request c (int n) retry_delay w)) =
          events (wait (rate_category c) (silent_rate c) w) @
          [Sent c, Logged (retry_log (net w 0) retry_delay 1 (int n))])"
proof -
  let ?w0 = "wait (rate_category c) (silent_rate c) w"
  have A: "fst (request c (int n) retry_delay w) = final_result (net w j) \<and>
           events (snd (request c (int n) retry_delay w)) =
             events ?w0 @ retry_events c retry_delay (int n) 1 (net w) j @ [Sent c]"
    if h: "j < n" "0 \<le> retry_delay \<or> j = 0" "\<forall>i<j. retryable (net w i)"
      "\<not> retryable (net w j)"
  proof (cases "0 \<le> retry_delay")
    case True
    from h have "\<forall>i<j. retryable (net ?w0 i)" "\<not> retryable (net ?w0 j)" "1 + int j \<le> int n"
      by (simp_all add: wait_net)
    from request_loop_stops [OF this True, of c None]
    show ?thesis by (simp add: request_def wait_net)
  next
    case False
    with h have j: "j = 0" by simp
    have "request_loop c 1 (int n) retry_delay None ?w0 = (final_result (net ?w0 0), sent c ?w0)"
      using h j by (intro request_loop_final) (simp_all add: wait_net)
    then show ?thesis
      by (simp add: request_def wait_net j retry_events_0 events_sent)
  qed
  have B: "fst (request c (int n) retry_delay w) =
             Inl (ConnectivityError (fault_of (net w (n - 1)))) \<and>
           events (snd (request c (int n) retry_delay w)) =
             events ?w0 @ retry_events c retry_delay (int n) 1 (net w) (n - 1) @ [Sent c]"
    if h: "0 < n" "0 \<le> retry_delay \<or> n = 1" "\<forall>i<n. retryable (net w i)"
  proof (cases "0 \<le> retry_delay")
    case True
    from h have "\<forall>i\<le>n - 1. retryable (net ?w0 i)" "1 + int (n - 1) = int n"
      by (auto simp: wait_net)
    from request_loop_exhausts [OF this True, of c None]
    show ?thesis by (simp add: request_def wait_net)
  next
    case False
    with h have n: "n = 1" by simp
    have "request_loop c 1 (int n) retry_delay None ?w0 =
            (Inl (ConnectivityError (fault_of (net ?w0 0))), sent c ?w0)"
      using h n by (intro request_loop_last) (simp_all add: wait_net)
    then show ?thesis
      by (simp add: request_def wait_net n retry_events_0 events_sent)
  qed
  have C: "request c m retry_delay w = (Inl (ConnectivityError None), ?w0)" if "m \<le> 0"
    using that by (simp add: request_def request_loop_over)
  have D: "fst (request c (int n) retry_delay w) = Inl SleepValueError \<and>
           events (snd (request c (int n) retry_delay w)) =
             events ?w0 @ [Sent c, Logged (retry_log (net w 0) retry_delay 1 (int n))]"
    if h: "retry_delay < 0" "1 < n" "retryable (net w 0)"
  proof -
    have "request_loop c 1 (int n) retry_delay None ?w0 =
            (Inl SleepValueError, logger (retry_log (net ?w0 0) retry_delay 1 (int n)) (sent c ?w0))"
      using h by (intro request_loop_refused) (simp_all add: wait_net)
    then show ?thesis
      by (simp add: request_def wait_net logger_def events_sent)
  qed
  from A B C D show ?thesis by blast
qed

theorem request_retry_policy_witness:
  "fst (request get_call 3 3
          (quiet_world\<lparr>net := script [ConnectionFailure, TimedOut, Answer server_error]
                                OtherFailure\<rparr>)) = Inl (HTTPError 500) \<and>
   events (snd (request get_call 3 3
          (quiet_world\<lparr>net := script [ConnectionFailure, TimedOut, Answer server_error]
                                OtherFailure\<rparr>))) =
     [Sent get_call, Logged (ConnectRetry 3 1 3), Slept 3,
      Sent get_call, Logged (TimeoutRetry 3 2 3), Slept 3, Sent get_call] \<and>
   fst (request get_call 3 3
          (quiet_world\<lparr>net := script [TimedOut, TimedOut, ConnectionFailure] OtherFailure\<rparr>))
     = Inl (ConnectivityError (Some ConnectionFault)) \<and>
   events (snd (request get_call 3 3
          (quiet_world\<lparr>net := script [TimedOut, TimedOut, ConnectionFailure] OtherFailure\<rparr>))) =
     [Sent get_call, Logged (TimeoutRetry 3 1 3), Slept 3,
      Sent get_call, Logged (TimeoutRetry 3 2 3), Slept 3, Sent get_call] \<and>
   fst (request get_call 3 (- 1)
          (quiet_world\<lparr>net := script [TimedOut, Answer server_error] OtherFailure\<rparr>))
     = Inl SleepValueError \<and>
   events (snd (request get_call 3 (- 1)
          (quiet_world\<lparr>net := script [TimedOut, Answer server_error] OtherFailure\<rparr>))) =
     [Sent get_call, Logged (TimeoutRetry (- 1) 1 3)] \<and>
   fst (request get_call 0 3 quiet_world) = Inl (ConnectivityError None) \<and>
   events (snd (request get_call 0 3 quiet_world)) = []"
proof -
  have w0: "events (wait (rate_category get_call) (silent_rate get_call) (quiet_world\<lparr>net := nt\<rparr>)) = []"
    for nt
    by (simp add: wait_def quiet_world_def INTERVALS_def Let_def get_call_def)
  from request_retry_policy [where j = 2 and n = 3 and retry_delay = 3 and c = get_call and
      w = "quiet_world\<lparr>net := script [ConnectionFailure, TimedOut, Answer server_error] OtherFailure\<rparr>"]
    request_retry_policy [where j = 0 and n = 3 and retry_delay = 3 and c = get_call and
      w = "quiet_world\<lparr>net := script [TimedOut, TimedOut, ConnectionFailure] OtherFailure\<rparr>"]
    request_retry_policy [where j = 0 and n = 3 and retry_delay = "- 1" and c = get_call and
      w = "quiet_world\<lparr>net := script [TimedOut, Answer server_error] OtherFailure\<rparr>"]
    request_retry_policy [where m = 0 and retry_delay = 3 and c = get_call and w = quiet_world]
    w0 [of "net quiet_world"]
  show ?thesis
    by (simp add: w0 All_less_Suc numeral_2_eq_2 numeral_3_eq_3 retry_events_Suc retry_events_0
        raise_for_status_def server_error_def)
qed

text \<open>
  C3 as stated fails for a negative retry delay: the first attempt of three ends in a
  connection error, the retry is announced in the log, \<open>time.sleep(- 1)\<close> raises, and
  the second attempt, which the server would have answered, is never made.
\<close>

theorem request_negative_delay_counterexample:
  "fst (request get_call 3 (- 1)
          (quiet_world\<lparr>net := script [ConnectionFailure, business_reply 0] OtherFailure\<rparr>))
     = Inl SleepValueError \<and>
   events (snd (request get_call 3 (- 1)
          (quiet_world\<lparr>net := script [ConnectionFailure, business_reply 0] OtherFailure\<rparr>))) =
     [Sent get_call, Logged (ConnectRetry (- 1) 1 3)] \<and>
   retryable ConnectionFailure \<and>
   fst (request get_call 3 3
          (quiet_world\<lparr>net := script [ConnectionFailure, business_reply 0] OtherFailure\<rparr>))
     = Inr \<lparr>status_code = 200,
            body = Json \<lparr>code = Some 0, msg = Some (ustr ''m''), data = PayloadMissing\<rparr>\<rparr>"
  by (simp add: request_def wait_def quiet_world_def INTERVALS_def Let_def get_call_def
      request_loop.simps requests_request_def logger_def time_sleep_def business_reply_def
      raise_for_status_def)


subsection \<open>Token cache\<close>

lemma refreshes_wait: "refreshes (wait category silent w) = refreshes w"
  by (simp add: wait_def Let_def refreshes_def time_sleep_def logger_def)

lemma refreshes_request_loop:
  "refreshes (snd (request_loop c a m d l w)) = refreshes w"
proof (induction c a m d l w rule: request_loop.induct)
  case (1 c a m d l w)
  show ?case
    apply (subst request_loop.simps)
    using 1
    by (auto simp: requests_request_def refreshes_def time_sleep_def logger_def
        split: exchange.splits prod.splits if_splits)
qed

lemma refreshes_request: "refreshes (snd (request c m d w)) = refreshes w"
  by (simp add: request_def refreshes_request_loop refreshes_wait)

text \<open>
  With the retry flag set, \<open>json_request\<close> makes one call of \<open>request\<close> and classifies
  its result; it does not call itself again.
\<close>

lemma json_request_retried:
  "json_request True c w =
     (case request c 3 3 w of
        (Inl e, w1) \<Rightarrow> (Inl e, w1)
      | (Inr response, w1) \<Rightarrow>
          (case body response of
             NotJson \<Rightarrow> (Inl JSONDecodeError, w1)
           | Json result \<Rightarrow>
               if code result = Some 0 then (Inr result, w1)
               else if auth_expired (code result)
               then (Inl (PermissionError (the (code result))
                            (case msg result of None \<Rightarrow> unknown_error_text | Some x \<Rightarrow> x)), w1)
               else (Inl (ApiError (code result)
                            (case msg result of None \<Rightarrow> unknown_error_text | Some x \<Rightarrow> x)), w1)))"
  by (subst json_request.simps) (simp add: Let_def split: prod.splits sum.splits parsed.splits)

lemma snd_json_request_retried: "snd (json_request True c w) = snd (request c 3 3 w)"
  by (simp add: json_request_retried split: prod.splits sum.splits parsed.splits)

lemma refreshes_json_request_retried: "refreshes (snd (json_request True c w)) = refreshes w"
  by (simp add: snd_json_request_retried refreshes_request)

lemma refresh_token_counts:
  "refreshes (snd (refresh_token json_request w)) = Suc (refreshes w)"
proof -
  let ?c = "\<lparr>http_method = ''POST'', url = BASE_URL @ ''/open/v1/access_token'',
              rate_category = ''default'', silent_rate = False, headers = [],
              args = [(''app_id'', app_id (auth w)), (''secret_key'', secret_key (auth w))]\<rparr>"
  have "refreshes (snd (json_request True ?c (logger FetchingToken w))) = Suc (refreshes w)"
    by (simp add: refreshes_json_request_retried) (simp add: refreshes_def logger_def)
  then show ?thesis
    by (auto simp: refresh_token_def refreshes_def logger_def save_token_cache_def Let_def
        split: prod.splits sum.splits payload.splits)
qed

lemma refresh_token_stores:
  assumes "refresh_token api w = (Inr u, w')"
  shows "truthy (token (auth w')) \<and> token_expire (auth w') = Num (now w' + 24 * 3600) \<and>
         token_config_hash (auth w') = Some (config_hash (auth w')) \<and>
         (cache_writable w' \<longrightarrow>
            token_cache_file w' =
              Cache (token (auth w')) (Some (Num (now w' + 24 * 3600)))
                (Some (config_hash (auth w'))))"
  using assms
  by (auto simp: refresh_token_def logger_def save_token_cache_def Let_def
      split: prod.splits sum.splits payload.splits if_splits)

text \<open>
  The condition on a cached token raises exactly when the token is non-empty and its
  expiry is not a number, and holds exactly when the token is non-empty and unexpired.
\<close>

lemma token_usable_raises:
  "token_usable t a = Inl e \<longleftrightarrow>
     truthy (token a) \<and> token_expire a = NotNumeric \<and> e = TypeError"
  by (auto simp: token_usable_def before_expiry_def split: expiry.splits)

lemma token_usable_holds:
  "token_usable t a = Inr True \<longleftrightarrow> truthy (token a) \<and> unexpired t (token_expire a)"
  by (auto simp: token_usable_def before_expiry_def unexpired_def split: expiry.splits)

lemma from_disk_cache_events:
  "refreshes (snd (from_disk_cache t w)) = refreshes w"
  by (auto simp: from_disk_cache_def Let_def refreshes_def logger_def load_token_cache_def
      split: token_file.splits sum.splits)

lemma from_disk_cache_Some:
  assumes "from_disk_cache (now w) w1 = (Inr (Some tok), w2)"
    and "token_cache_file w1 = token_cache_file w"
    and "config_hash (auth w1) = config_hash (auth w)"
    and "token (auth w1) = None"
  shows "disk_valid w \<and> disk_token w = Some tok"
proof -
  define w0 where "w0 = load_token_cache w1"
  obtain usable where u: "token_usable (now w) (auth w0) = Inr usable"
    using assms(1) by (cases "token_usable (now w) (auth w0)")
      (simp_all add: from_disk_cache_def Let_def w0_def [symmetric])
  from assms(1) u have "usable" "\<not> config_changed (auth w0)" "token (auth w0) = Some tok"
    by (auto simp: from_disk_cache_def Let_def w0_def [symmetric] split: if_splits)
  moreover from this(1) u have "truthy (token (auth w0))"
    "unexpired (now w) (token_expire (auth w0))"
    by (simp_all add: token_usable_holds)
  ultimately show ?thesis
    using assms(2,3,4)
    by (auto simp: w0_def load_token_cache_def disk_valid_def disk_token_def
        config_changed_def split: token_file.splits)
qed

lemma from_disk_cache_raises:
  assumes "from_disk_cache t w1 = (Inl e, w2)"
    and "token (auth w1) = None"
  shows "e = TypeError \<and> refreshes w2 = refreshes w1 \<and>
         (case token_cache_file w1 of
            Cache t e h \<Rightarrow> truthy t \<and> e = Some NotNumeric
          | _ \<Rightarrow> False)"
proof -
  define w0 where "w0 = load_token_cache w1"
  from assms(1) have u: "token_usable t (auth w0) = Inl e" and w2: "w2 = w0"
    by (auto simp: from_disk_cache_def Let_def w0_def [symmetric]
        split: sum.splits if_splits)
  from u have "truthy (token (auth w0))" "token_expire (auth w0) = NotNumeric" "e = TypeError"
    by (simp_all add: token_usable_raises)
  then show ?thesis
    using assms(2) w2
    by (auto simp: w0_def load_token_cache_def refreshes_def
        split: token_file.splits option.splits)
qed

text \<open>
  Every call of \<open>get_token\<close> does one of three things. It starts no refresh and returns a
  cached token that is usable (the one in memory, or the one of the cache file:
  non-empty, the time read on entry strictly less than its expiry minus 300 seconds, its
  fingerprint equal to the hash of the current credentials). Or it starts no refresh
  and raises a \<open>TypeError\<close>, the cached token it looked at being non-empty with an expiry
  that is not a number. Or it starts exactly one refresh; then a token that is returned
  is the newly issued one, stored in memory with expiry equal to the time at which it
  is stored plus 24 hours and with the current fingerprint, and written so to the
  cache file when the file can be written.
\<close>

lemma get_token_cached_or_refreshed:
  assumes "get_token json_request w = (res, w')"
  shows "(refreshes w' = refreshes w \<and>
            ((mem_valid w \<and> res = Inr (the (token (auth w)))) \<or>
             (disk_valid w \<and> res = Inr (the (disk_token w))))) \<or>
         (refreshes w' = refreshes w \<and> res = Inl TypeError \<and>
            (mem_unreadable w \<or> disk_unreadable w)) \<or>
         (refreshes w' = refreshes w + 1 \<and>
            (\<forall>tok. res = Inr tok \<longrightarrow>
               token (auth w') = Some tok \<and> tok \<noteq> [] \<and>
               token_expire (auth w') = Num (now w' + 24 * 3600) \<and>
               token_config_hash (auth w') = Some (config_hash (auth w')) \<and>
               (cache_writable w' \<longrightarrow>
                  token_cache_file w' =
                    Cache (Some tok) (Some (Num (now w' + 24 * 3600)))
                      (Some (config_hash (auth w'))))))"
proof -
  define w1 where "w1 = (if config_changed (auth w)
                then w\<lparr>auth := (auth w)\<lparr>token := None, token_expire := Num 0,
                                        token_config_hash := None\<rparr>\<rparr>
                else w)"
  have e1: "refreshes w1 = refreshes w" "token_cache_file w1 = token_cache_file w"
    "config_hash (auth w1) = config_hash (auth w)"
    by (simp_all add: w1_def refreshes_def)
  have kept: "w1 = w \<and> token_config_hash (auth w) = Some (config_hash (auth w))"
    if "truthy (token (auth w1))"
    using that by (auto simp: w1_def config_changed_def split: if_splits)
  have gone: "token (auth w) = None \<or>
              token_config_hash (auth w) \<noteq> Some (config_hash (auth w))"
    if "token (auth w1) = None"
    using that by (auto simp: w1_def config_changed_def split: if_splits)
  define p where "p = (if token (auth w1) = None then from_disk_cache (now w) w1
                       else (Inr None, w1))"
  have gt: "get_token json_request w =
              (case token_usable (now w) (auth w1) of
                 Inl e \<Rightarrow> (Inl e, w1)
               | Inr usable \<Rightarrow>
                   if usable then (Inr (the (token (auth w1))), w1)
                   else
                     (case p of
                        (Inl e, w2) \<Rightarrow> (Inl e, w2)
                      | (Inr (Some tok), w2) \<Rightarrow> (Inr tok, w2)
                      | (Inr None, w2) \<Rightarrow>
                          (case refresh_token json_request w2 of
                             (Inl e, w3) \<Rightarrow> (Inl e, w3)
                           | (Inr u, w3) \<Rightarrow> (Inr (the (token (auth w3))), w3))))"
    unfolding get_token_def Let_def w1_def [symmetric] p_def [symmetric] by (rule refl)
  show ?thesis
  proof (cases "token_usable (now w) (auth w1)")
    case (Inl e)
    then have t: "truthy (token (auth w1))" "token_expire (auth w1) = NotNumeric" "e = TypeError"
      by (simp_all add: token_usable_raises)
    from kept [OF t(1)] t have "mem_unreadable w" by (simp add: mem_unreadable_def)
    moreover from assms gt Inl t(3) have "res = Inl TypeError" "w' = w1" by simp_all
    ultimately show ?thesis using e1(1) by simp
  next
    case (Inr usable)
    show ?thesis
    proof (cases usable)
      case True
      with Inr have t: "truthy (token (auth w1))" "unexpired (now w) (token_expire (auth w1))"
        by (simp_all add: token_usable_holds)
      from kept [OF t(1)] t have "mem_valid w" "w1 = w" by (simp_all add: mem_valid_def)
      moreover from assms gt Inr True have "res = Inr (the (token (auth w1)))" "w' = w1"
        by auto
      ultimately show ?thesis by simp
    next
      case False
      have r2: "refreshes (snd p) = refreshes w"
        by (simp add: p_def from_disk_cache_events e1)
      have gt2: "get_token json_request w =
                   (case p of
                      (Inl e, w2) \<Rightarrow> (Inl e, w2)
                    | (Inr (Some tok), w2) \<Rightarrow> (Inr tok, w2)
                    | (Inr None, w2) \<Rightarrow>
                        (case refresh_token json_request w2 of
                           (Inl e, w3) \<Rightarrow> (Inl e, w3)
                         | (Inr u, w3) \<Rightarrow> (Inr (the (token (auth w3))), w3)))"
        by (simp add: gt Inr False)
      obtain early w2 where p: "p = (early, w2)" by (cases p)
      have r2': "refreshes w2 = refreshes w" using r2 p by simp
      show ?thesis
      proof (cases early)
        case (Inl e)
        with p have fd: "from_disk_cache (now w) w1 = (Inl e, w2)" and tn: "token (auth w1) = None"
          by (auto simp: p_def split: if_splits)
        from from_disk_cache_raises [OF fd tn] e1(2)
        have "e = TypeError"
          "case token_cache_file w of Cache t e h \<Rightarrow> truthy t \<and> e = Some NotNumeric
             | _ \<Rightarrow> False"
          by simp_all
        with gone [OF tn] have "e = TypeError" "disk_unreadable w"
          by (simp_all add: disk_unreadable_def)
        moreover from assms gt2 p Inl have "res = Inl e" "w' = w2" by simp_all
        ultimately show ?thesis using r2' by simp
      next
        case (Inr found)
        show ?thesis
        proof (cases found)
          case (Some tok)
          with p Inr have "from_disk_cache (now w) w1 = (Inr (Some tok), w2)"
            "token (auth w1) = None"
            by (auto simp: p_def split: if_splits)
          from from_disk_cache_Some [OF this(1) e1(2,3) this(2)]
          have dv: "disk_valid w" "disk_token w = Some tok" by simp_all
          have "get_token json_request w = (Inr tok, w2)"
            by (simp add: gt2 p Inr Some)
          with assms have "res = Inr tok" "w' = w2" by simp_all
          with dv r2' show ?thesis by simp
        next
          case None
          obtain r3 w3 where rt: "refresh_token json_request w2 = (r3, w3)"
            by (cases "refresh_token json_request w2")
          have cnt: "refreshes w3 = refreshes w + 1"
            using refresh_token_counts [of w2] rt r2' by simp
          have g: "get_token json_request w =
                     (case r3 of Inl e \<Rightarrow> (Inl e, w3)
                      | Inr u \<Rightarrow> (Inr (the (token (auth w3))), w3))"
            by (simp add: gt2 p Inr None rt)
          have w3: "w' = w3" using assms g by (cases r3) simp_all
          have "token (auth w3) = Some tok \<and> tok \<noteq> [] \<and>
                   token_expire (auth w3) = Num (now w3 + 24 * 3600) \<and>
                   token_config_hash (auth w3) = Some (config_hash (auth w3)) \<and>
                   (cache_writable w3 \<longrightarrow>
                      token_cache_file w3 =
                        Cache (Some tok) (Some (Num (now w3 + 24 * 3600)))
                          (Some (config_hash (auth w3))))" if "res = Inr tok" for tok
          proof -
            from that assms g have r3: "r3 = Inr ()" and tok: "tok = the (token (auth w3))"
              by (cases r3; simp)+
            from refresh_token_stores [of json_request w2 "()" w3] rt r3
            have st: "truthy (token (auth w3))"
              "token_expire (auth w3) = Num (now w3 + 24 * 3600)"
              "token_config_hash (auth w3) = Some (config_hash (auth w3))"
              "cache_writable w3 \<longrightarrow>
                token_cache_file w3 =
                  Cache (token (auth w3)) (Some (Num (now w3 + 24 * 3600)))
                    (Some (config_hash (auth w3)))"
              by simp_all
            from st(1) tok have "token (auth w3) = Some tok" "tok \<noteq> []"
              by (auto simp: truthy_iff)
            with st show ?thesis by simp
          qed
          with cnt w3 show ?thesis by blast
        qed
      qed
    qed
  qed
qed

text \<open>
  Conversely, whenever the cached token that \<open>get_token\<close> looks at is non-empty with an
  expiry that is not a number, the call raises and starts no refresh, whatever the
  client passed in would do.
\<close>

lemma get_token_unreadable:
  assumes "mem_unreadable w \<or> disk_unreadable w"
  shows "fst (get_token api w) = Inl TypeError \<and>
         refreshes (snd (get_token api w)) = refreshes w"
  using assms
proof
  assume "mem_unreadable w"
  then show ?thesis
    by (simp add: mem_unreadable_def get_token_def Let_def config_changed_def
        token_usable_def before_expiry_def)
next
  assume d: "disk_unreadable w"
  define w1 where "w1 = (if config_changed (auth w)
                then w\<lparr>auth := (auth w)\<lparr>token := None, token_expire := Num 0,
                                        token_config_hash := None\<rparr>\<rparr>
                else w)"
  from d have tn: "token (auth w1) = None"
    by (auto simp: disk_unreadable_def w1_def config_changed_def)
  from d obtain t h where c: "token_cache_file w1 = Cache t (Some NotNumeric) h" "truthy t"
    by (auto simp: disk_unreadable_def w1_def split: token_file.splits)
  have fd: "from_disk_cache (now w) w1 = (Inl TypeError, load_token_cache w1)"
    using c by (simp add: from_disk_cache_def Let_def load_token_cache_def
        token_usable_def before_expiry_def)
  have "get_token api w = (Inl TypeError, load_token_cache w1)"
    using tn fd
    by (simp add: get_token_def Let_def w1_def [symmetric] token_usable_def)
  moreover have "refreshes (load_token_cache w1) = refreshes w"
    using c by (simp add: load_token_cache_def refreshes_def w1_def)
  ultimately show ?thesis by simp
qed

text \<open>The equations that run the model on a concrete world.\<close>

lemmas run_simps =
  get_token_def quiet_world_def config_changed_def Let_def
  from_disk_cache_def load_token_cache_def refresh_token_def json_request_retried
  request_def wait_def INTERVALS_def request_loop.simps requests_request_def
  token_reply_def raise_for_status_def logger_def save_token_cache_def ustr_def
  refreshes_def mem_valid_def disk_valid_def disk_token_def time_sleep_def reset_def
  token_usable_def before_expiry_def unexpired_def mem_unreadable_def disk_unreadable_def

text \<open>
  Two runs of \<open>get_token\<close> without surprise: a new client is issued a token by one
  refresh and stores it with the expiry 24 hours after the time of storing, and a new
  client that finds a usable token in its cache file returns it without a refresh.
\<close>

lemma get_token_runs:
  "fst (get_token json_request fresh_world) = Inr (ustr ''tok'') \<and>
   refreshes (snd (get_token json_request fresh_world)) = refreshes fresh_world + 1 \<and>
   token (auth (snd (get_token json_request fresh_world))) = Some (ustr ''tok'') \<and>
   token_expire (auth (snd (get_token json_request fresh_world))) = Num (1000 + 24 * 3600) \<and>
   token_cache_file (snd (get_token json_request fresh_world)) =
     Cache (Some (ustr ''tok'')) (Some (Num (1000 + 24 * 3600))) (Some (ustr ''h1'')) \<and>
   disk_valid cached_world \<and>
   fst (get_token json_request cached_world) = Inr (ustr ''old'') \<and>
   refreshes (snd (get_token json_request cached_world)) = refreshes cached_world"
  by (simp add: run_simps fresh_world_def cached_world_def)

text \<open>
  C1 fails on a token cache file that holds a non-empty token, the fingerprint of the
  current credentials, and an \<open>expire_time\<close> that is not a number (\<open>null\<close>, say). A new
  client has no usable token in memory and none on disk, so C1 asks for exactly one
  refresh. Instead the comparison of the time with the expiry raises a \<open>TypeError\<close>:
  \<open>get_token\<close> returns no token, starts no refresh and sends nothing, although the
  token endpoint would have issued a token.
\<close>

theorem get_token_unreadable_expiry:
  "\<not> mem_valid unreadable_world \<and> \<not> disk_valid unreadable_world \<and>
   fst (get_token json_request unreadable_world) = Inl TypeError \<and>
   refreshes (snd (get_token json_request unreadable_world)) = 0 \<and>
   sent_calls (events (snd (get_token json_request unreadable_world))) = [] \<and>
   net unreadable_world 0 = token_reply (ustr ''tok'')"
  by (simp add: run_simps unreadable_world_def)


subsection \<open>JSON business layer\<close>

lemma json_request_retried_verdict:
  "json_request True c w =
     (case request c 3 3 w of
        (Inl e, w1) \<Rightarrow> (Inl e, w1)
      | (Inr r, w1) \<Rightarrow> (verdict r, w1))"
  by (simp add: json_request_retried verdict_def msg_text_def
      split: prod.splits sum.splits parsed.splits)

lemma map_of_dict_set: "map_of (dict_set k v kvs) = (map_of kvs)(k \<mapsto> v)"
  by (induction kvs) (auto simp: fun_eq_iff)

text \<open>
  What \<open>json_request\<close> does with a response that parses: code 0 returns the parsed body; a code other than 0, 10400 and 10401
  raises the generic API error carrying the code and the message; 10400 or 10401 with
  the retry flag set raises the permission error; 10400 or 10401 with the flag unset
  clears the token in memory and calls \<open>get_token\<close>. If that call fails, its error is
  raised and the request is not retried. If it returns a token, the request is sent
  exactly once more, with the retry flag set, so that its outcome is final (10400 or
  10401 again is the permission error); the token replaces the \<open>access_token\<close> header
  when the request carries one, and a request without that header is retried unchanged.
\<close>

lemma json_request_outcomes:
  assumes "request c 3 3 w = (Inr r, w1)" and "body r = Json result"
  shows
    "(code result = Some 0 \<longrightarrow> json_request retried c w = (Inr result, w1)) \<and>
     (code result \<noteq> Some 0 \<and> \<not> auth_expired (code result) \<longrightarrow>
        json_request retried c w = (Inl (ApiError (code result) (msg_text result)), w1)) \<and>
     (auth_expired (code result) \<and> retried \<longrightarrow>
        json_request retried c w =
          (Inl (PermissionError (the (code result)) (msg_text result)), w1)) \<and>
     (auth_expired (code result) \<and> \<not> retried \<longrightarrow>
        token (auth (reset (logger (TokenInvalid (code result)) w1))) = None \<and>
        (\<forall>e w2. get_token json_request (reset (logger (TokenInvalid (code result)) w1))
                   = (Inl e, w2) \<longrightarrow>
           json_request retried c w = (Inl e, w2)) \<and>
        (\<forall>tok w2. get_token json_request (reset (logger (TokenInvalid (code result)) w1))
                     = (Inr tok, w2) \<longrightarrow>
           json_request retried c w =
             (case request (substitute_token tok c) 3 3 w2 of
                (Inl e, w3) \<Rightarrow> (Inl e, w3)
              | (Inr r2, w3) \<Rightarrow> (verdict r2, w3)) \<and>
           (''access_token'' \<in> fst ` set (headers c) \<longrightarrow>
              map_of (headers (substitute_token tok c)) =
                (map_of (headers c))(''access_token'' \<mapsto> tok)) \<and>
           (''access_token'' \<notin> fst ` set (headers c) \<longrightarrow> substitute_token tok c = c)))"
proof -
  have ae0: "auth_expired (code result) \<Longrightarrow> code result \<noteq> Some 0"
    by (auto simp: auth_expired_def)
  have u: "json_request retried c w =
             (if code result = Some 0 then (Inr result, w1)
              else if auth_expired (code result) \<and> \<not> retried
              then (case get_token json_request
                           (reset (logger (TokenInvalid (code result)) w1)) of
                      (Inl e, w2) \<Rightarrow> (Inl e, w2)
                    | (Inr new_token, w2) \<Rightarrow>
                        json_request True (substitute_token new_token c) w2)
              else if auth_expired (code result)
              then (Inl (PermissionError (the (code result)) (msg_text result)), w1)
              else (Inl (ApiError (code result) (msg_text result)), w1))"
    by (subst json_request.simps) (simp add: assms Let_def msg_text_def)
  show ?thesis
  proof (intro conjI impI allI)
    assume "code result = Some 0"
    then show "json_request retried c w = (Inr result, w1)" by (simp add: u)
  next
    assume "code result \<noteq> Some 0 \<and> \<not> auth_expired (code result)"
    then show "json_request retried c w =
                 (Inl (ApiError (code result) (msg_text result)), w1)"
      by (simp add: u)
  next
    assume "auth_expired (code result) \<and> retried"
    then show "json_request retried c w =
                 (Inl (PermissionError (the (code result)) (msg_text result)), w1)"
      using ae0 u by auto
  next
    show "token (auth (reset (logger (TokenInvalid (code result)) w1))) = None"
      by (simp add: reset_def)
  next
    fix e w2
    assume "auth_expired (code result) \<and> \<not> retried"
      and "get_token json_request (reset (logger (TokenInvalid (code result)) w1)) = (Inl e, w2)"
    then show "json_request retried c w = (Inl e, w2)"
      using ae0 u by auto
  next
    fix tok w2
    assume "auth_expired (code result) \<and> \<not> retried"
      and "get_token json_request (reset (logger (TokenInvalid (code result)) w1)) = (Inr tok, w2)"
    then show "json_request retried c w =
             (case request (substitute_token tok c) 3 3 w2 of
                (Inl e, w3) \<Rightarrow> (Inl e, w3)
              | (Inr r2, w3) \<Rightarrow> (verdict r2, w3))"
      using ae0 u by (auto simp: json_request_retried_verdict)
  next
    fix tok
    assume "''access_token'' \<in> fst ` set (headers c)"
    then show "map_of (headers (substitute_token tok c)) =
                (map_of (headers c))(''access_token'' \<mapsto> tok)"
      by (simp add: substitute_token_def map_of_dict_set)
  next
    fix tok
    assume "''access_token'' \<notin> fst ` set (headers c)"
    then show "substitute_token tok c = c"
      by (simp add: substitute_token_def)
  qed
qed


lemmas json_run_simps =
  json_request.simps [of False] run_simps business_reply_def token_call_def
  auth_expired_def substitute_token_def

text \<open>
  Two runs that show the limits of the retry. A request without an \<open>access_token\<close>
  header that is answered 10401 is retried as it was: the new token is not put into its
  headers. And when the token request is itself rejected, the permission error of the
  token request is raised and the original request is not retried at all.
\<close>

lemma json_request_retry_limits:
  "fst (json_request False plain_call expired_world) =
     Inr \<lparr>code = Some 0, msg = Some (ustr ''m''), data = PayloadMissing\<rparr> \<and>
   sent_calls (events (snd (json_request False plain_call expired_world))) =
     [plain_call, token_call expired_world, plain_call] \<and>
   headers plain_call = [] \<and>
   fst (json_request False get_call rejected_world) =
     Inl (PermissionError 10401 (ustr ''m'')) \<and>
   sent_calls (events (snd (json_request False get_call rejected_world))) =
     [get_call, token_call rejected_world]"
  by (simp add: json_run_simps expired_world_def rejected_world_def plain_call_def get_call_def)

text \<open>
  C2 fails on a client whose token is usable by its expiry and fingerprint, in memory and
  in the cache file, when the server rejects that token with the code 10401. C2 asks for
  a fresh token to be obtained and put into the \<open>access_token\<close> header of the retry.
  But \<open>reset\<close> clears the token in memory only, although its docstring says that it
  forces the next refresh: \<open>get_token\<close> then reads the token cache file again, finds the
  rejected token still usable and returns it. No refresh is started, the request is
  retried with the token that was just rejected, and the permission error is raised.
\<close>

theorem json_request_reuses_cached_token:
  "mem_valid stale_world \<and> disk_valid stale_world \<and>
   headers get_call = [(''access_token'', ustr ''old'')] \<and>
   fst (json_request False get_call stale_world) = Inl (PermissionError 10401 (ustr ''m'')) \<and>
   sent_calls (events (snd (json_request False get_call stale_world))) = [get_call, get_call] \<and>
   refreshes (snd (json_request False get_call stale_world)) = 0"
  by (simp add: json_run_simps stale_world_def get_call_def)

text \<open>
  A run in which the retry succeeds: the client has no cached token, so the
  rejected request is followed by a token request, and the request is sent once more
  with the new token in its \<open>access_token\<close> header.
\<close>

lemma json_request_outcomes_run:
  "fst (json_request False get_call expired_world) =
     Inr \<lparr>code = Some 0, msg = Some (ustr ''m''), data = PayloadMissing\<rparr> \<and>
   sent_calls (events (snd (json_request False get_call expired_world))) =
     [get_call, token_call expired_world,
      get_call\<lparr>headers := [(''access_token'', ustr ''new'')]\<rparr>] \<and>
   map_of (headers (substitute_token (ustr ''new'') get_call)) =
     (map_of (headers get_call))(''access_token'' \<mapsto> ustr ''new'')"
proof -
  let ?e = "\<lparr>code = Some 10401, msg = Some (ustr ''m''), data = PayloadMissing\<rparr>"
  let ?r = "\<lparr>status_code = 200, body = Json ?e\<rparr>"
  let ?w1 = "snd (request get_call 3 3 expired_world)"
  let ?v = "reset (logger (TokenInvalid (code ?e)) ?w1)"
  have rq: "request get_call 3 3 expired_world = (Inr ?r, ?w1)"
    by (simp add: json_run_simps expired_world_def get_call_def)
  have bd: "body ?r = Json ?e" by simp
  have gt: "get_token json_request ?v = (Inr (ustr ''new''), snd (get_token json_request ?v))"
    by (simp add: json_run_simps expired_world_def get_call_def)
  have hd: "''access_token'' \<in> fst ` set (headers get_call)"
    by (simp add: get_call_def)
  from json_request_outcomes [OF rq bd, of False] gt hd
  have "json_request False get_call expired_world =
          (case request (substitute_token (ustr ''new'') get_call) 3 3
                  (snd (get_token json_request ?v)) of
             (Inl e, w3) \<Rightarrow> (Inl e, w3)
           | (Inr r2, w3) \<Rightarrow> (verdict r2, w3))"
    and m: "map_of (headers (substitute_token (ustr ''new'') get_call)) =
              (map_of (headers get_call))(''access_token'' \<mapsto> ustr ''new'')"
    by (simp_all add: auth_expired_def)
  then show ?thesis
    by (simp add: json_run_simps expired_world_def get_call_def verdict_def msg_text_def)
qed


subsection \<open>Arithmetic on floats\<close>

lemma pow2_powr: "pow2 e = 2 powr (of_int e)"
proof (cases "0 \<le> e")
  case True
  then have "(2::real) powr (of_int e) = 2 powr (real (nat e))" by simp
  also have "\<dots> = 2 ^ nat e" by (simp add: powr_realpow)
  finally show ?thesis using True by (simp add: pow2_def)
next
  case False
  then have "(2::real) powr (of_int e) = 2 powr (- real (nat (- e)))" by simp
  also have "\<dots> = 1 / 2 ^ nat (- e)"
    by (simp add: powr_minus powr_realpow divide_inverse)
  finally show ?thesis using False by (simp add: pow2_def)
qed

lemma pow2_pos: "0 < pow2 e"
  by (simp add: pow2_powr)

lemma pow2_add: "pow2 (a + b) = pow2 a * pow2 b"
  by (simp add: pow2_powr powr_add)

lemma pow2_mono: "a \<le> b \<Longrightarrow> pow2 a \<le> pow2 b"
  by (simp add: pow2_powr)

lemma pow2_nat: "0 \<le> e \<Longrightarrow> pow2 e = of_int (2 ^ nat e)"
  by (simp add: pow2_def)

lemma ilog2_nonneg: "0 \<le> ilog2 n"
  by (induction n rule: ilog2.induct) (subst ilog2.simps, simp)

text \<open>\<open>ilog2 n\<close> is the position of the highest bit of \<open>n\<close>.\<close>

lemma ilog2_bounds:
  "1 \<le> n \<Longrightarrow> 2 ^ nat (ilog2 n) \<le> n \<and> n < 2 * 2 ^ nat (ilog2 n)"
proof (induction n rule: ilog2.induct)
  case (1 n)
  show ?case
  proof (cases "n < 2")
    case True
    with 1(2) have "n = 1" by simp
    then show ?thesis by (subst ilog2.simps, subst (2) ilog2.simps) simp
  next
    case False
    then have ih: "2 ^ nat (ilog2 (n div 2)) \<le> n div 2 \<and> n div 2 < 2 * 2 ^ nat (ilog2 (n div 2))"
      using 1 by simp
    have eq: "ilog2 n = 1 + ilog2 (n div 2)"
      using False by (subst ilog2.simps) simp
    have p: "(2::int) ^ nat (ilog2 n) = 2 * 2 ^ nat (ilog2 (n div 2))"
      using ilog2_nonneg [of "n div 2"] by (simp add: eq nat_add_distrib)
    from ih show ?thesis unfolding p by linarith
  qed
qed

text \<open>\<open>binade x\<close> is the exponent of the power of two at or below \<open>|x|\<close>.\<close>

lemma binade_bounds:
  assumes "x \<noteq> 0"
  shows "pow2 (binade x) \<le> \<bar>x\<bar> \<and> \<bar>x\<bar> < pow2 (binade x + 1)"
proof (cases "1 \<le> \<bar>x\<bar>")
  case True
  define n where "n = \<lfloor>\<bar>x\<bar>\<rfloor>"
  have n1: "1 \<le> n" using True by (simp add: n_def le_floor_iff)
  have b: "binade x = ilog2 n" using True by (simp add: binade_def n_def)
  from ilog2_bounds [OF n1]
  have lo: "2 ^ nat (ilog2 n) \<le> n" and hi: "n + 1 \<le> 2 * 2 ^ nat (ilog2 n)" by simp_all
  have "real_of_int (2 ^ nat (ilog2 n)) \<le> real_of_int n"
    using lo by (simp only: of_int_le_iff)
  also have "\<dots> \<le> \<bar>x\<bar>" by (simp add: n_def)
  finally have 1: "pow2 (binade x) \<le> \<bar>x\<bar>"
    by (simp add: b pow2_nat ilog2_nonneg)
  have "\<bar>x\<bar> < real_of_int (n + 1)" unfolding n_def by linarith
  also have "\<dots> \<le> real_of_int (2 * 2 ^ nat (ilog2 n))"
    using hi by (simp only: of_int_le_iff)
  finally have 2: "\<bar>x\<bar> < pow2 (binade x + 1)"
    using ilog2_nonneg [of n] by (simp add: b pow2_def nat_add_distrib)
  from 1 2 show ?thesis ..
next
  case False
  define y where "y = 1 / \<bar>x\<bar>"
  define n where "n = \<lceil>y\<rceil> - 1"
  have xpos: "0 < \<bar>x\<bar>" using assms by simp
  have y1: "1 < y" using False xpos by (simp add: y_def)
  have n1: "1 \<le> n" using y1 unfolding n_def by linarith
  have b: "binade x = - ilog2 n - 1" using False by (simp add: binade_def n_def y_def)
  from ilog2_bounds [OF n1]
  have lo: "2 ^ nat (ilog2 n) \<le> n" and hi: "n + 1 \<le> 2 * 2 ^ nat (ilog2 n)" by simp_all
  have ny: "real_of_int n < y" "y \<le> real_of_int (n + 1)"
    unfolding n_def by linarith+
  have "real_of_int (2 ^ nat (ilog2 n)) \<le> real_of_int n"
    using lo by (simp only: of_int_le_iff)
  then have "2 ^ nat (ilog2 n) \<le> real_of_int n" by simp
  with ny have ylo: "2 ^ nat (ilog2 n) < y" by linarith
  have "real_of_int (n + 1) \<le> real_of_int (2 * 2 ^ nat (ilog2 n))"
    using hi by (simp only: of_int_le_iff)
  then have "real_of_int (n + 1) \<le> 2 * 2 ^ nat (ilog2 n)" by simp
  with ny have yhi: "y \<le> 2 * 2 ^ nat (ilog2 n)" by linarith
  have x: "\<bar>x\<bar> = 1 / y" using xpos by (simp add: y_def)
  have ypos: "0 < y" using y1 by simp
  have 1: "pow2 (binade x) \<le> \<bar>x\<bar>"
  proof -
    have "pow2 (binade x) = 1 / (2 * 2 ^ nat (ilog2 n))"
      using ilog2_nonneg [of n] by (simp add: b pow2_def nat_add_distrib)
    also have "\<dots> \<le> 1 / y"
      using yhi ypos by (intro divide_left_mono) simp_all
    finally show ?thesis by (simp add: x)
  qed
  have 2: "\<bar>x\<bar> < pow2 (binade x + 1)"
  proof -
    have e: "pow2 (binade x + 1) = 1 / 2 ^ nat (ilog2 n)"
      using ilog2_nonneg [of n] by (simp add: b pow2_def)
    have "1 / y < 1 / 2 ^ nat (ilog2 n)"
      using ylo ypos by (intro divide_strict_left_mono) simp_all
    then show ?thesis by (simp add: x e)
  qed
  from 1 2 show ?thesis ..
qed

lemma binade_mono:
  assumes "0 < x" and "x \<le> y"
  shows "binade x \<le> binade y"
proof (rule ccontr)
  assume "\<not> binade x \<le> binade y"
  then have "binade y + 1 \<le> binade x" by simp
  then have "pow2 (binade y + 1) \<le> pow2 (binade x)" by (rule pow2_mono)
  also have "\<dots> \<le> \<bar>x\<bar>" using binade_bounds [of x] assms by simp
  also have "\<dots> \<le> \<bar>y\<bar>" using assms by simp
  also have "\<dots> < pow2 (binade y + 1)" using binade_bounds [of y] assms by simp
  finally show False by simp
qed

lemma round_half_even_int: "round_half_even (of_int n) = n"
  by (simp add: round_half_even_def)

lemma round_half_even_bounds:
  "\<lfloor>r\<rfloor> \<le> round_half_even r \<and> round_half_even r \<le> \<lfloor>r\<rfloor> + 1"
  by (simp add: round_half_even_def Let_def)

lemma round_half_even_mono:
  assumes "r \<le> s"
  shows "round_half_even r \<le> round_half_even s"
proof (cases "\<lfloor>r\<rfloor> = \<lfloor>s\<rfloor>")
  case True
  with assms show ?thesis
    by (auto simp: round_half_even_def Let_def)
next
  case False
  with assms have "\<lfloor>r\<rfloor> + 1 \<le> \<lfloor>s\<rfloor>"
    using floor_mono [OF assms] by simp
  with round_half_even_bounds [of r] round_half_even_bounds [of s]
  show ?thesis by linarith
qed

lemma ulp_pos: "0 < ulp x"
  by (simp add: ulp_def pow2_pos)

lemma to_float_nonpos: "x \<le> 0 \<Longrightarrow> to_float x \<le> 0"
proof -
  assume "x \<le> 0"
  then have "x / ulp x \<le> 0" using ulp_pos [of x] by (simp add: divide_le_0_iff)
  from round_half_even_mono [OF this] have "round_half_even (x / ulp x) \<le> 0"
    using round_half_even_int [of 0] by simp
  then show ?thesis using ulp_pos [of x]
    by (simp add: to_float_def mult_le_0_iff)
qed

lemma pow2_ratio:
  assumes "e \<le> k"
  shows "pow2 k / pow2 e = of_int (2 ^ nat (k - e))"
proof -
  have "pow2 k = pow2 (k - e) * pow2 e"
    using pow2_add [of "k - e" e] by simp
  then show ?thesis using pow2_pos [of e] assms by (simp add: pow2_nat)
qed

text \<open>
  Rounding does not cross a power of two that lies on the grid of the number rounded.
\<close>

lemma to_float_le_pow2:
  assumes "x \<noteq> 0" and "x \<le> pow2 k" and "max (binade x) (- 1022) - 52 \<le> k"
  shows "to_float x \<le> pow2 k"
proof -
  define e where "e = max (binade x) (- 1022) - 52"
  have u: "ulp x = pow2 e" by (simp add: ulp_def e_def)
  have "x / pow2 e \<le> pow2 k / pow2 e"
    using assms(2) pow2_pos [of e] by (simp add: divide_right_mono)
  also have "\<dots> = of_int (2 ^ nat (k - e))"
    using assms(3) by (intro pow2_ratio) (simp add: e_def)
  finally have "round_half_even (x / pow2 e) \<le> 2 ^ nat (k - e)"
    using round_half_even_mono round_half_even_int by metis
  then have "real_of_int (round_half_even (x / pow2 e)) \<le> real_of_int (2 ^ nat (k - e))"
    by (simp only: of_int_le_iff)
  then have "real_of_int (round_half_even (x / pow2 e)) * pow2 e \<le>
             real_of_int (2 ^ nat (k - e)) * pow2 e"
    using pow2_pos [of e] by (simp only: mult_le_cancel_right) simp
  also have "\<dots> = pow2 k"
    using pow2_ratio [of e k] assms(3) pow2_pos [of e] by (simp add: e_def field_simps)
  finally show ?thesis using assms(1) by (simp add: to_float_def u)
qed

lemma to_float_ge_pow2:
  assumes "x \<noteq> 0" and "pow2 k \<le> x" and "max (binade x) (- 1022) - 52 \<le> k"
  shows "pow2 k \<le> to_float x"
proof -
  define e where "e = max (binade x) (- 1022) - 52"
  have u: "ulp x = pow2 e" by (simp add: ulp_def e_def)
  have "of_int (2 ^ nat (k - e)) = pow2 k / pow2 e"
    using assms(3) by (intro pow2_ratio [symmetric]) (simp add: e_def)
  also have "\<dots> \<le> x / pow2 e"
    using assms(2) pow2_pos [of e] by (simp add: divide_right_mono)
  finally have "2 ^ nat (k - e) \<le> round_half_even (x / pow2 e)"
    using round_half_even_mono round_half_even_int by metis
  then have "real_of_int (2 ^ nat (k - e)) \<le> real_of_int (round_half_even (x / pow2 e))"
    by (simp only: of_int_le_iff)
  then have "real_of_int (2 ^ nat (k - e)) * pow2 e \<le>
             real_of_int (round_half_even (x / pow2 e)) * pow2 e"
    using pow2_pos [of e] by (simp only: mult_le_cancel_right) simp
  moreover have "real_of_int (2 ^ nat (k - e)) * pow2 e = pow2 k"
    using pow2_ratio [of e k] assms(3) pow2_pos [of e] by (simp add: e_def field_simps)
  ultimately show ?thesis using assms(1) by (simp add: to_float_def u)
qed

text \<open>Rounding to the nearest float is monotone.\<close>

lemma to_float_mono:
  assumes "0 < x" and "x \<le> y"
  shows "to_float x \<le> to_float y"
proof -
  define ex where "ex = max (binade x) (- 1022)"
  define ey where "ey = max (binade y) (- 1022)"
  have le: "ex \<le> ey"
    using binade_mono [OF assms] by (simp add: ex_def ey_def)
  show ?thesis
  proof (cases "ex = ey")
    case True
    then have u: "ulp y = ulp x" by (simp add: ulp_def ex_def ey_def)
    have "x / ulp x \<le> y / ulp x"
      using assms(2) ulp_pos [of x] by (simp add: divide_right_mono)
    from round_half_even_mono [OF this]
    have "real_of_int (round_half_even (x / ulp x)) \<le> real_of_int (round_half_even (y / ulp x))"
      by (simp only: of_int_le_iff)
    then have "real_of_int (round_half_even (x / ulp x)) * ulp x \<le>
               real_of_int (round_half_even (y / ulp x)) * ulp x"
      using ulp_pos [of x] by (simp only: mult_le_cancel_right) simp
    then show ?thesis using assms by (simp add: to_float_def u)
  next
    case False
    with le have lt: "ex + 1 \<le> ey" by simp
    then have biny: "binade y = ey" by (simp add: ex_def ey_def)
    have "x < pow2 (binade x + 1)" using binade_bounds [of x] assms(1) by simp
    also have "\<dots> \<le> pow2 (ex + 1)" by (intro pow2_mono) (simp add: ex_def)
    finally have "x \<le> pow2 (ex + 1)" by simp
    then have "to_float x \<le> pow2 (ex + 1)"
      using assms(1) by (intro to_float_le_pow2) (simp_all add: ex_def)
    also have "\<dots> \<le> pow2 ey" using lt by (rule pow2_mono)
    also have "\<dots> \<le> to_float y"
    proof (rule to_float_ge_pow2)
      show "y \<noteq> 0" using assms by simp
      show "pow2 ey \<le> y" using binade_bounds [of y] assms by (simp add: biny [symmetric])
      show "max (binade y) (- 1022) - 52 \<le> ey" by (simp add: ey_def)
    qed
    finally show ?thesis .
  qed
qed

lemma binade_1: "binade 1 = 0"
  by (simp add: binade_def ilog2.simps)

lemma binade_100: "binade 100 = 6"
  by (simp add: binade_def ilog2.simps)

lemma to_float_1: "to_float 1 = 1"
  by (simp add: to_float_def ulp_def binade_1 pow2_def round_half_even_def)

lemma to_float_100: "to_float 100 = 100"
  by (simp add: to_float_def ulp_def binade_100 pow2_def round_half_even_def)

lemma py_int_le: "x \<le> of_int n \<Longrightarrow> 0 \<le> n \<Longrightarrow> py_int x \<le> n"
  by (auto simp: py_int_def floor_le_iff ceiling_le_iff)

subsection \<open>Upload progress stream\<close>

text \<open>
  The percentage of a position that is not beyond the total is at most 100, and the
  percentage of the total itself is exactly 100, in the arithmetic of floats.
\<close>

lemma percent_le_100:
  assumes "p \<le> t" and "0 < t" and "percent p t = Inr c"
  shows "c \<le> 100"
proof -
  define q where "q = to_float (of_int p / of_int t)"
  define r where "r = to_float (q * 100)"
  have c: "c = py_int r"
    using assms(2,3)
    by (auto simp: percent_def int_truediv_def float_mul_def int_of_float_def Let_def
        q_def r_def split: if_splits)
  have "r \<le> 100"
  proof (cases "0 < q")
    case False
    then have "q * 100 \<le> 0" by simp
    then have "r \<le> 0" unfolding r_def by (rule to_float_nonpos)
    then show ?thesis by simp
  next
    case True
    have "q \<le> 1"
    proof (cases "0 < p")
      case False
      then have "of_int p / of_int t \<le> (0::real)"
        using assms(2) by (simp add: divide_le_0_iff)
      then have "q \<le> 0" unfolding q_def by (rule to_float_nonpos)
      then show ?thesis by simp
    next
      case True
      then have "0 < real_of_int p / of_int t" "real_of_int p / of_int t \<le> 1"
        using assms(1,2) by simp_all
      from to_float_mono [OF this] show ?thesis by (simp add: q_def to_float_1)
    qed
    with True have "0 < q * 100" "q * 100 \<le> 100" by simp_all
    from to_float_mono [OF this] show ?thesis by (simp add: r_def to_float_100)
  qed
  then show ?thesis unfolding c by (intro py_int_le) simp_all
qed

lemma percent_full: "0 < t \<Longrightarrow> percent t t = Inr 100"
  by (simp add: percent_def int_truediv_def float_mul_def int_of_float_def Let_def
      to_float_1 to_float_100 pow2_def py_int_def)

lemma upload_inv_init: "upload_inv (init_upload d cb)"
  by (simp add: upload_inv_def init_upload_def)

lemma invoked_extend:
  assumes "list_all (\<lambda>p. 0 \<le> p \<and> p \<le> 100) xs" and "sorted xs" and "successively step_ok xs"
    and "last (- 20 # xs) + 20 \<le> p \<or> 100 \<le> p" and "p \<le> 100"
  shows "list_all (\<lambda>p. 0 \<le> p \<and> p \<le> 100) (xs @ [p]) \<and> sorted (xs @ [p]) \<and>
         successively step_ok (xs @ [p])"
proof (cases xs rule: rev_cases)
  case Nil
  with assms show ?thesis by auto
next
  case (snoc ys y)
  have all: "\<forall>x\<in>set xs. 0 \<le> x \<and> x \<le> 100"
    using assms(1) by (simp add: list_all_iff)
  have "y \<le> p" "step_ok y p" "0 \<le> p"
    using assms(4,5) all snoc by (auto simp: step_ok_def)
  moreover have "\<forall>x\<in>set xs. x \<le> y"
    using assms(2) snoc by (auto simp: sorted_append)
  ultimately show ?thesis
    using assms(1,2,3,5) snoc
    by (auto simp: sorted_append successively_append_iff list_all_iff)
qed

lemma upload_inv_read:
  assumes "upload_inv u"
  shows "upload_inv (snd (read sz u))"
proof (cases "pos u \<ge> total u")
  case True
  then show ?thesis using assms by (simp add: read_def)
next
  case False
  define p' where "p' = (if sz = Some (- 1) \<or> sz = None then total u
                         else min (pos u + the sz) (total u))"
  have p'le: "p' \<le> total u" by (simp add: p'_def)
  have snd_read: "snd (read sz u) =
     (if total u > 0
      then (case percent p' (total u) of
              Inl e \<Rightarrow> u\<lparr>pos := p'\<rparr>
            | Inr pct \<Rightarrow>
                if pct \<ge> last_pct u + 20 \<or> pct \<ge> 100
                then u\<lparr>pos := p', last_pct := pct,
                       invoked := invoked u @ (if on_progress u then [pct] else [])\<rparr>
                else u\<lparr>pos := p'\<rparr>)
      else u\<lparr>pos := p'\<rparr>)"
    using False by (auto simp: read_def Let_def p'_def split: sum.splits)
  show ?thesis
  proof (cases "total u > 0")
    case t: True
    have full: "p' = total u \<Longrightarrow> percent p' (total u) = Inr 100"
      using t by (simp add: percent_full)
    show ?thesis
    proof (cases "percent p' (total u)")
      case (Inl e)
      then have "p' \<noteq> total u" using full by auto
      then show ?thesis
        using t Inl p'le assms by (simp add: snd_read upload_inv_def)
    next
      case (Inr pct)
      have pct100: "pct \<le> 100" using p'le t Inr by (rule percent_le_100)
      have full': "p' = total u \<Longrightarrow> pct = 100" using full Inr by simp
      show ?thesis
      proof (cases "pct \<ge> last_pct u + 20 \<or> pct \<ge> 100")
        case fire: True
        show ?thesis
        proof (cases "on_progress u")
          case cb: True
          have "last (- 20 # invoked u) + 20 \<le> pct \<or> 100 \<le> pct"
            using fire assms cb by (simp add: upload_inv_def)
          from invoked_extend [OF _ _ _ this pct100] assms
          have "list_all (\<lambda>p. 0 \<le> p \<and> p \<le> 100) (invoked u @ [pct]) \<and>
                sorted (invoked u @ [pct]) \<and> successively step_ok (invoked u @ [pct])"
            by (simp add: upload_inv_def)
          then show ?thesis
            using t fire cb p'le full' Inr by (simp add: snd_read upload_inv_def)
        next
          case False
          then show ?thesis
            using t fire p'le assms Inr by (simp add: snd_read upload_inv_def)
        qed
      next
        case nofire: False
        then have "p' \<noteq> total u" using full' by auto
        then show ?thesis
          using t nofire p'le assms Inr by (simp add: snd_read upload_inv_def)
      qed
    qed
  next
    case False
    then show ?thesis using p'le assms by (simp add: snd_read upload_inv_def)
  qed
qed

lemma upload_inv_reads: "upload_inv u \<Longrightarrow> upload_inv (reads szs u)"
  by (induction szs arbitrary: u) (simp_all add: upload_inv_read)

lemma reads_static:
  "total (reads szs u) = total u \<and> on_progress (reads szs u) = on_progress u"
proof (induction szs arbitrary: u)
  case Nil
  show ?case by simp
next
  case (Cons sz szs)
  have "total (snd (read sz u)) = total u \<and> on_progress (snd (read sz u)) = on_progress u"
    by (auto simp: read_def Let_def split: prod.splits sum.splits)
  with Cons show ?case by simp
qed

text \<open>
  C6. For every byte buffer and every sequence of \<open>read\<close> calls on a new stream, the
  percentages passed to the callback do not decrease, each one after the first is at
  least 20 above the one before it or is 100, all lie between 0 and 100, and once a
  non-empty buffer has been read to its end the last percentage passed is 100. The
  percentages are those of the arithmetic of floats, and the sizes are arbitrary
  (\<open>None\<close>, \<open>- 1\<close>, zero and negative sizes included).
\<close>

theorem upload_progress_percentages:
  "sorted (invoked (reads szs (init_upload d cb))) \<and>
   successively step_ok (invoked (reads szs (init_upload d cb))) \<and>
   list_all (\<lambda>p. 0 \<le> p \<and> p \<le> 100) (invoked (reads szs (init_upload d cb))) \<and>
   (cb \<and> d \<noteq> [] \<and> pos (reads szs (init_upload d cb)) = int (length d) \<longrightarrow>
      invoked (reads szs (init_upload d cb)) \<noteq> [] \<and>
      last (invoked (reads szs (init_upload d cb))) = 100)"
proof -
  let ?u = "reads szs (init_upload d cb)"
  have inv: "upload_inv ?u"
    by (intro upload_inv_reads upload_inv_init)
  have st: "total ?u = int (length d)" "on_progress ?u = cb"
    using reads_static [of szs "init_upload d cb"] by (simp_all add: init_upload_def)
  from inv st show ?thesis
    by (auto simp: upload_inv_def)
qed

text \<open>The equations that evaluate the arithmetic of floats on numerals.\<close>

lemmas float_simps =
  percent_def int_truediv_def float_mul_def int_of_float_def Let_def
  to_float_def ulp_def binade_def ilog2.simps pow2_def round_half_even_def py_int_def

lemma percent_tenths:
  "percent 3 10 = Inr 30 \<and> percent 7 10 = Inr 70 \<and> percent 10 10 = Inr 100"
  by (simp add: float_simps)

lemma percent_hundredths:
  "percent 9 100 = Inr 9 \<and> percent 29 100 = Inr 28 \<and> percent 58 100 = Inr 57"
  by (simp add: float_simps)

theorem upload_progress_percentages_witness:
  "invoked (reads [Some 3, Some 0, Some 4, None] (init_upload ''0123456789'' True)) = [30, 70, 100] \<and>
   pos (reads [Some 3, Some 0, Some 4, None] (init_upload ''0123456789'' True)) = 10 \<and>
   sorted (invoked (reads [Some 3, Some 0, Some 4, None] (init_upload ''0123456789'' True))) \<and>
   successively step_ok (invoked (reads [Some 3, Some 0, Some 4, None] (init_upload ''0123456789'' True))) \<and>
   last (invoked (reads [Some 3, Some 0, Some 4, None] (init_upload ''0123456789'' True))) = 100"
proof -
  have ev: "invoked (reads [Some 3, Some 0, Some 4, None] (init_upload ''0123456789'' True)) = [30, 70, 100]"
    "pos (reads [Some 3, Some 0, Some 4, None] (init_upload ''0123456789'' True)) = 10"
    by (simp_all add: read_def init_upload_def percent_tenths Let_def)
  from upload_progress_percentages [of "[Some 3, Some 0, Some 4, None]" "''0123456789''" True] ev
  show ?thesis by simp
qed

text \<open>
  The rounding shows in the percentages: 29 bytes of 100 are 28 percent and 58 bytes of
  100 are 57 percent, so that after \<open>read(9)\<close> and \<open>read(20)\<close> on 100 bytes the callback
  has been called with 9 only.
\<close>

lemma upload_rounding:
  "invoked (reads [Some 9, Some 20] (init_upload (replicate 100 CHR ''x'') True)) = [9] \<and>
   pos (reads [Some 9, Some 20] (init_upload (replicate 100 CHR ''x'') True)) = 29 \<and>
   invoked (reads [Some 9, Some 20, Some 29, None] (init_upload (replicate 100 CHR ''x'') True)) =
     [9, 57, 100]"
  by (simp add: read_def init_upload_def percent_hundredths percent_full Let_def)


subsection \<open>Polling loops and progress\<close>

lemma is_substring_prefix: "take (length kw) s = kw \<Longrightarrow> is_substring kw s"
  by (cases s) auto

lemma is_substring_append: "is_substring kw (a @ kw @ b)"
  by (induction a) (simp_all add: is_substring_prefix)

lemma check_billing_error_keyword:
  assumes "kw \<in> set BILLING_KEYWORDS"
  shows "check_billing_error (a @ kw @ b) = Some (BillingError (a @ kw @ b))"
proof -
  have "kw \<noteq> []" using assms by (auto simp: BILLING_KEYWORDS_def)
  then have "a @ kw @ b \<noteq> []" by simp
  moreover have "list_ex (\<lambda>k. is_substring k (a @ kw @ b)) BILLING_KEYWORDS"
    unfolding list_ex_iff using assms is_substring_append by blast
  ultimately show ?thesis by (simp add: check_billing_error_def)
qed

lemma resume_simps:
  "resume k (Pending s, tr) = k s tr"
  "resume k (Raised e, tr) = (Raised e, tr)"
  "resume k (Returned x, tr) = (Returned x, tr)"
  by (simp_all add: resume_def)

lemma tts_poll_append:
  "tts_poll start max_wait cb (pre @ rest) pc errs tr =
     resume (\<lambda>(pc', errs'). tts_poll start max_wait cb rest pc' errs')
       (tts_poll start max_wait cb pre pc errs tr)"
proof (induction pre arbitrary: pc errs tr cb)
  case Nil
  show ?case by (simp add: resume_simps)
next
  case (Cons x pre)
  obtain t q where x: "x = (t, q)" by (cases x)
  show ?case
    unfolding x
    by (simp add: Cons resume_simps split: sum.splits option.splits)
qed

lemma tts_poll_billing:
  assumes "tts_poll start max_wait cb pre pc errs tr = (Pending s, tr')"
    and "t - start \<le> max_wait"
    and "tts_status d = 9" and "errMsg d = Some (a @ kw @ b)"
    and "kw \<in> set BILLING_KEYWORDS"
  shows "tts_poll start max_wait cb (pre @ (t, Inr (Some d)) # rest) pc errs tr
           = (Raised (BillingError (a @ kw @ b)), tr')"
proof -
  have "kw \<noteq> []" using assms(5) by (auto simp: BILLING_KEYWORDS_def)
  then have "tts_finished d = Inl (BillingError (a @ kw @ b))"
    using assms(4) check_billing_error_keyword [OF assms(5), of a b]
    by (simp add: tts_finished_def)
  then show ?thesis
    using assms(1,2,3) by (cases s) (simp add: tts_poll_append resume_simps)
qed


text \<open>
  C9. In a run of the TTS polling loop, when the reply to a status query that is made
  (the loop is still running and within its time limit) has status 9 and an \<open>errMsg\<close>
  that contains one of the billing keywords, whatever text stands before and after the
  keyword, the loop raises the billing error carrying that message, and so does
  \<open>synthesize\<close>.
\<close>

theorem tts_billing_error:
  assumes "tts_poll start max_wait cb pre pc errs tr = (Pending s, tr')"
    and "t - start \<le> max_wait"
    and "tts_status d = 9" and "errMsg d = Some (a @ kw @ b)"
    and "kw \<in> set BILLING_KEYWORDS"
  shows "tts_poll start max_wait cb (pre @ (t, Inr (Some d)) # rest) pc errs tr
           = (Raised (BillingError (a @ kw @ b)), tr') \<and>
         (phrase \<noteq> [] \<and> strip phrase \<noteq> [] \<and> length phrase \<le> 4000 \<and> max_wait = 600 \<and>
          pc = 0 \<and> errs = 0 \<and>
          tr = (if cb then [Progress SpeechSynthesis 0 CreatingTask] else []) \<longrightarrow>
            synthesize phrase cb (Inr (Some task_id)) start (pre @ (t, Inr (Some d)) # rest)
              = (Raised (BillingError (a @ kw @ b)), tr'))"
proof -
  note poll = tts_poll_billing [OF assms, of rest]
  show ?thesis
  proof (intro conjI impI)
    show "tts_poll start max_wait cb (pre @ (t, Inr (Some d)) # rest) pc errs tr
           = (Raised (BillingError (a @ kw @ b)), tr')"
      by (rule poll)
  next
    assume "phrase \<noteq> [] \<and> strip phrase \<noteq> [] \<and> length phrase \<le> 4000 \<and> max_wait = 600 \<and>
          pc = 0 \<and> errs = 0 \<and>
          tr = (if cb then [Progress SpeechSynthesis 0 CreatingTask] else [])"
    with poll
    show "synthesize phrase cb (Inr (Some task_id)) start (pre @ (t, Inr (Some d)) # rest)
              = (Raised (BillingError (a @ kw @ b)), tr')"
      by (simp add: synthesize_def Let_def)
  qed
qed

theorem tts_billing_error_witness:
  "tts_poll 0 600 True [(0, Inr (Some working_reply))] 0 0
     [Progress SpeechSynthesis 0 CreatingTask] =
     (Pending (1, 0),
      [Progress SpeechSynthesis 0 CreatingTask, Progress SpeechSynthesis 15 Synthesizing,
       Wait 3]) \<and>
   (4::real) - 0 \<le> 600 \<and> tts_status billing_reply = 9 \<and>
   errMsg billing_reply = Some (ustr ''x'' @ [27424, 36153] @ ustr ''y'') \<and>
   [27424, 36153] \<in> set BILLING_KEYWORDS \<and>
   tts_poll 0 600 True
     ([(0, Inr (Some working_reply))] @ (4, Inr (Some billing_reply)) # []) 0 0
     [Progress SpeechSynthesis 0 CreatingTask] =
     (Raised (BillingError (ustr ''x'' @ [27424, 36153] @ ustr ''y'')),
      [Progress SpeechSynthesis 0 CreatingTask, Progress SpeechSynthesis 15 Synthesizing,
       Wait 3]) \<and>
   synthesize (ustr ''hi'') True (Inr (Some (ustr ''t1''))) 0
     ([(0, Inr (Some working_reply))] @ (4, Inr (Some billing_reply)) # []) =
     (Raised (BillingError (ustr ''x'' @ [27424, 36153] @ ustr ''y'')),
      [Progress SpeechSynthesis 0 CreatingTask, Progress SpeechSynthesis 15 Synthesizing,
       Wait 3])"
proof -
  have h: "tts_poll 0 600 True [(0, Inr (Some working_reply))] 0 0
     [Progress SpeechSynthesis 0 CreatingTask] =
     (Pending (1, 0),
      [Progress SpeechSynthesis 0 CreatingTask, Progress SpeechSynthesis 15 Synthesizing,
       Wait 3])"
    "(4::real) - 0 \<le> 600" "tts_status billing_reply = 9"
    "errMsg billing_reply = Some (ustr ''x'' @ [27424, 36153] @ ustr ''y'')"
    "[27424, 36153] \<in> set BILLING_KEYWORDS"
    by (simp_all add: working_reply_def billing_reply_def estimated_pct_def
        BILLING_KEYWORDS_def)
  have tx: "ustr ''hi'' \<noteq> []" "strip (ustr ''hi'') \<noteq> []" "length (ustr ''hi'') \<le> 4000"
    by (simp_all add: ustr_def strip_def is_space_def)
  from tts_billing_error [OF h, where phrase = "ustr ''hi''" and rest = "[]"
      and task_id = "ustr ''t1''"] h tx
  show ?thesis by simp
qed

lemma tts_poll_failures:
  assumes "in_time start max_wait fs" and "errs + int (length fs) < 5"
  shows "tts_poll start max_wait cb (failures fs @ rest) pc errs tr =
           tts_poll start max_wait cb rest pc (errs + int (length fs))
             (tr @ replicate (length fs) (Wait 5))"
  using assms
proof (induction fs arbitrary: errs tr)
  case Nil
  show ?case by (simp add: failures_def)
next
  case (Cons f fs)
  obtain t e where f: "f = (t, e)" by (cases f)
  have "in_time start max_wait fs" "errs + 1 + int (length fs) < 5" "t - start \<le> max_wait"
    using Cons.prems by (simp_all add: in_time_def f)
  from Cons.IH [OF this(1,2)] this(2,3)
  show ?case
    by (simp add: failures_def f replicate_app_Cons_same add.assoc)
qed

lemma tts_poll_fifth_failure:
  assumes "in_time start max_wait fs" and "errs + int (length fs) = 4"
    and "t - start \<le> max_wait"
  shows "tts_poll start max_wait cb (failures fs @ (t, Inl e) # rest) pc errs tr =
           (Raised (PollingFailed e), tr @ replicate (length fs) (Wait 5))"
proof -
  have "errs + int (length fs) < 5" using assms(2) by simp
  from tts_poll_failures [OF assms(1) this] assms(2,3)
  show ?thesis by simp
qed

lemma clone_poll_failures:
  assumes "in_time start max_wait fs" and "errs + int (length fs) < 5"
  shows "clone_poll start max_wait cb (failures fs @ rest) ls lp errs tr =
           clone_poll start max_wait cb rest ls lp (errs + int (length fs))
             (tr @ replicate (length fs) (Wait 5))"
  using assms
proof (induction fs arbitrary: errs tr)
  case Nil
  show ?case by (simp add: failures_def)
next
  case (Cons f fs)
  obtain t e where f: "f = (t, e)" by (cases f)
  have "in_time start max_wait fs" "errs + 1 + int (length fs) < 5" "t - start \<le> max_wait"
    using Cons.prems by (simp_all add: in_time_def f)
  from Cons.IH [OF this(1,2)] this(2,3)
  show ?case
    by (simp add: failures_def f replicate_app_Cons_same add.assoc)
qed

lemma clone_poll_fifth_failure:
  assumes "in_time start max_wait fs" and "errs + int (length fs) = 4"
    and "t - start \<le> max_wait"
  shows "clone_poll start max_wait cb (failures fs @ (t, Inl e) # rest) ls lp errs tr =
           (Raised (PollingFailed e), tr @ replicate (length fs) (Wait 5))"
proof -
  have "errs + int (length fs) < 5" using assms(2) by simp
  from clone_poll_failures [OF assms(1) this] assms(2,3)
  show ?thesis by simp
qed

lemma file_poll_failures:
  assumes "in_time start max_wait fs" and "list_all (\<lambda>(t, e). transient e) fs"
  shows "file_poll start poll_interval max_wait (failures fs @ rest) tr =
           file_poll start poll_interval max_wait rest
             (tr @ concat (map (\<lambda>(t, e). [Wait poll_interval, Warned e]) fs))"
  using assms
proof (induction fs arbitrary: tr)
  case Nil
  show ?case by (simp add: failures_def)
next
  case (Cons f fs)
  obtain t e where f: "f = (t, e)" by (cases f)
  have "in_time start max_wait fs" "list_all (\<lambda>(t, e). transient e) fs"
    "t - start \<le> max_wait" "transient e"
    using Cons.prems by (simp_all add: in_time_def f)
  from Cons.IH [OF this(1,2)] this(3,4)
  show ?case
    by (simp add: failures_def f transient_def)
qed

text \<open>
  C5 (amended). In the TTS and voice-clone loops, starting with no failure counted,
  fewer than five failed status queries in a row are each followed by a sleep of 5
  seconds and the loop goes on; a fifth failed query in a row makes the loop raise its
  polling error wrapping the last failure; a query that succeeds makes the loop forget
  the failures counted before it. The file-synchronisation loop logs any number of
  failed queries in a row and goes on, as long as none is a \<open>RuntimeError\<close> or a
  \<open>TimeoutError\<close>; such a failure it raises at once. All queries are taken within
  the loop's time limit.
\<close>

theorem polling_failure_policy:
  assumes "in_time start max_wait fs" and "t - start \<le> max_wait"
  shows
    "(length fs < 5 \<longrightarrow>
        tts_poll start max_wait cb (failures fs @ rest_tts) pc 0 tr =
          tts_poll start max_wait cb rest_tts pc (int (length fs))
            (tr @ replicate (length fs) (Wait 5)) \<and>
        clone_poll start max_wait cb (failures fs @ rest_clone) ls lp 0 tr =
          clone_poll start max_wait cb rest_clone ls lp (int (length fs))
            (tr @ replicate (length fs) (Wait 5))) \<and>
     (length fs = 4 \<longrightarrow>
        tts_poll start max_wait cb (failures fs @ (t, Inl e) # rest_tts) pc 0 tr =
          (Raised (PollingFailed e), tr @ replicate 4 (Wait 5)) \<and>
        clone_poll start max_wait cb (failures fs @ (t, Inl e) # rest_clone) ls lp 0 tr =
          (Raised (PollingFailed e), tr @ replicate 4 (Wait 5))) \<and>
     tts_poll start max_wait cb ((t, Inr reply_tts) # rest_tts) pc errs tr =
       tts_poll start max_wait cb ((t, Inr reply_tts) # rest_tts) pc 0 tr \<and>
     clone_poll start max_wait cb ((t, Inr reply_clone) # rest_clone) ls lp errs tr =
       clone_poll start max_wait cb ((t, Inr reply_clone) # rest_clone) ls lp 0 tr \<and>
     (list_all (\<lambda>(t, e). transient e) fs \<longrightarrow>
        file_poll start poll_interval max_wait (failures fs @ rest_file) tr =
          file_poll start poll_interval max_wait rest_file
            (tr @ concat (map (\<lambda>(t, e). [Wait poll_interval, Warned e]) fs))) \<and>
     (\<not> transient e \<longrightarrow>
        file_poll start poll_interval max_wait ((t, Inl e) # rest_file) tr =
          (Raised e, tr @ [Wait poll_interval]))"
proof (intro conjI impI)
  assume "length fs < 5"
  then have lt: "0 + int (length fs) < 5" by simp
  from tts_poll_failures [OF assms(1) lt]
  show "tts_poll start max_wait cb (failures fs @ rest_tts) pc 0 tr =
          tts_poll start max_wait cb rest_tts pc (int (length fs))
            (tr @ replicate (length fs) (Wait 5))" by simp
  from clone_poll_failures [OF assms(1) lt]
  show "clone_poll start max_wait cb (failures fs @ rest_clone) ls lp 0 tr =
          clone_poll start max_wait cb rest_clone ls lp (int (length fs))
            (tr @ replicate (length fs) (Wait 5))" by simp
next
  assume l4: "length fs = 4"
  then have eq: "0 + int (length fs) = 4" by simp
  from tts_poll_fifth_failure [OF assms(1) eq assms(2)] l4
  show "tts_poll start max_wait cb (failures fs @ (t, Inl e) # rest_tts) pc 0 tr =
          (Raised (PollingFailed e), tr @ replicate 4 (Wait 5))" by simp
  from clone_poll_fifth_failure [OF assms(1) eq assms(2)] l4
  show "clone_poll start max_wait cb (failures fs @ (t, Inl e) # rest_clone) ls lp 0 tr =
          (Raised (PollingFailed e), tr @ replicate 4 (Wait 5))" by simp
next
  show "tts_poll start max_wait cb ((t, Inr reply_tts) # rest_tts) pc errs tr =
          tts_poll start max_wait cb ((t, Inr reply_tts) # rest_tts) pc 0 tr"
    by (simp split: option.splits)
  show "clone_poll start max_wait cb ((t, Inr reply_clone) # rest_clone) ls lp errs tr =
          clone_poll start max_wait cb ((t, Inr reply_clone) # rest_clone) ls lp 0 tr"
    by (simp add: Let_def split: option.splits)
next
  assume "list_all (\<lambda>(t, e). transient e) fs"
  from file_poll_failures [OF assms(1) this]
  show "file_poll start poll_interval max_wait (failures fs @ rest_file) tr =
          file_poll start poll_interval max_wait rest_file
            (tr @ concat (map (\<lambda>(t, e). [Wait poll_interval, Warned e]) fs))" .
next
  assume "\<not> transient e"
  then show "file_poll start poll_interval max_wait ((t, Inl e) # rest_file) tr =
          (Raised e, tr @ [Wait poll_interval])"
    using assms(2) by (simp add: transient_def)
qed


theorem polling_failure_policy_witness:
  "in_time 0 600 [(0, offline), (5, offline), (10, offline), (15, offline)] \<and>
   (20::real) - 0 \<le> 600 \<and>
   list_all (\<lambda>(t, e). transient e) [(0, offline), (5, offline), (10, offline), (15, offline)] \<and>
   \<not> transient (ApiError (Some 500) (ustr ''m'')) \<and>
   tts_poll 0 600 True
     (failures [(0, offline), (5, offline), (10, offline), (15, offline)] @
      [(20, Inl (ApiError (Some 500) (ustr ''m'')))]) 0 0 [] =
     (Raised (PollingFailed (ApiError (Some 500) (ustr ''m''))), replicate 4 (Wait 5)) \<and>
   clone_poll 0 600 True
     (failures [(0, offline), (5, offline), (10, offline), (15, offline)] @
      [(20, Inl (ApiError (Some 500) (ustr ''m'')))]) (- 1) (- 1) 0 [] =
     (Raised (PollingFailed (ApiError (Some 500) (ustr ''m''))), replicate 4 (Wait 5)) \<and>
   file_poll 0 3 600
     (failures [(0, offline), (5, offline), (10, offline), (15, offline)] @ []) [] =
     (Pending (),
      [Wait 3, Warned offline, Wait 3, Warned offline, Wait 3, Warned offline,
       Wait 3, Warned offline]) \<and>
   file_poll 0 3 600 [(20, Inl (ApiError (Some 500) (ustr ''m'')))] [] =
     (Raised (ApiError (Some 500) (ustr ''m'')), [Wait 3])"
proof -
  have h: "in_time 0 600 [(0, offline), (5, offline), (10, offline), (15, offline)]"
    "(20::real) - 0 \<le> 600"
    by (simp_all add: in_time_def)
  have tr: "list_all (\<lambda>(t, e). transient e) [(0, offline), (5, offline), (10, offline), (15, offline)]"
    "\<not> transient (ApiError (Some 500) (ustr ''m''))"
    by (simp_all add: transient_def offline_def)
  from polling_failure_policy [OF h, where cb = True and rest_tts = "[]" and pc = 0
      and tr = "[]" and rest_clone = "[]" and ls = "- 1" and lp = "- 1"
      and e = "ApiError (Some 500) (ustr ''m'')" and reply_tts = None and reply_clone = None
      and errs = 0 and poll_interval = 3 and rest_file = "[]"] h tr
  show ?thesis by simp
qed

text \<open>
  C5 as stated fails for the file-synchronisation loop: six failed status queries in
  a row do not abort it, and the seventh query, which reports the file as synced,
  makes it return.
\<close>

theorem polling_counterexample:
  "file_poll 0 3 90
     [(0, Inl offline), (3, Inl offline), (6, Inl offline), (9, Inl offline),
      (12, Inl offline), (15, Inl offline), (18, Inr (Some 1))] [] =
     (Returned (),
      [Wait 3, Warned offline, Wait 3, Warned offline, Wait 3, Warned offline,
       Wait 3, Warned offline, Wait 3, Warned offline, Wait 3, Warned offline, Wait 3])"
  by (simp add: offline_def)

text \<open>
  The lip-sync loop has no \<open>try\<close> around its status query: the first failed query
  ends the loop with that exception.
\<close>

lemma lip_poll_failure:
  "t - start \<le> max_wait \<Longrightarrow>
     lip_poll start max_wait cb ((t, Inl e) # rest) last_progress last_status tr = (Raised e, tr)"
  by simp

lemma percents_append: "percents s (a @ b) = percents s a @ percents s b"
  by (induction s a rule: percents.induct) simp_all

lemma sorted_drop_middle: "sorted (xs @ p # ys) \<Longrightarrow> sorted (xs @ ys)"
  by (auto simp: sorted_append)

lemma sorted_take_prefix: "sorted (xs @ ys) \<Longrightarrow> sorted xs"
  by (simp add: sorted_append)

lemma lip_poll_sorted:
  assumes "sorted (percents VideoSynthesis tr @ lip_reported ticks)"
  shows "sorted (percents VideoSynthesis (snd (lip_poll start max_wait cb ticks lp ls tr)))"
  using assms
proof (induction ticks arbitrary: lp ls tr)
  case Nil
  then show ?case by simp
next
  case (Cons x ticks)
  obtain t q where x: "x = (t, q)" by (cases x)
  show ?case
  proof (cases q)
    case (Inl e)
    with Cons.prems show ?thesis by (simp add: x sorted_take_prefix)
  next
    case (Inr d)
    define p where "p = (case lip_progress d of None \<Rightarrow> 0 | Some p \<Rightarrow> p)"
    define tr1 where "tr1 = (if (lip_status d \<noteq> ls \<or> p \<noteq> lp) \<and> cb
                         then tr @ [Progress VideoSynthesis p (status_text (lip_status d))]
                         else tr)"
    have pre: "sorted (percents VideoSynthesis tr @ p # lip_reported ticks)"
      using Cons.prems by (simp add: x Inr p_def)
    have s1: "sorted (percents VideoSynthesis tr1 @ lip_reported ticks)"
      using pre sorted_drop_middle [OF pre] by (simp add: tr1_def percents_append)
    then have s1': "sorted (percents VideoSynthesis (tr1 @ [Wait 5]) @ lip_reported ticks)"
      by (simp add: percents_append)
    have s0: "sorted (percents VideoSynthesis tr1)"
      using s1 by (rule sorted_take_prefix)
    have st: "sorted (percents VideoSynthesis tr)"
      using pre by (rule sorted_take_prefix)
    have step: "\<exists>lp1 ls1.
        snd (lip_poll start max_wait cb (x # ticks) lp ls tr) = tr \<or>
        snd (lip_poll start max_wait cb (x # ticks) lp ls tr) = tr1 \<or>
        snd (lip_poll start max_wait cb (x # ticks) lp ls tr) =
          snd (lip_poll start max_wait cb ticks lp1 ls1 (tr1 @ [Wait 5]))"
      unfolding x Inr tr1_def p_def
      by (simp add: Let_def split: option.splits) blast
    with Cons.IH [OF s1'] s0 st show ?thesis by auto
  qed
qed


lemma clone_poll_sorted:
  assumes "sorted (percents VoiceClone tr @ clone_reported ticks @ [100])"
  shows "sorted (percents VoiceClone (snd (clone_poll start max_wait cb ticks ls lp errs tr)))"
  using assms
proof (induction ticks arbitrary: ls lp errs tr)
  case Nil
  then show ?case by (simp add: sorted_append)
next
  case (Cons x ticks)
  obtain t q where x: "x = (t, q)" by (cases x)
  have st: "sorted (percents VoiceClone tr)"
    using Cons.prems by (rule sorted_take_prefix)
  have st100: "sorted (percents VoiceClone tr @ [100])"
    using Cons.prems by (auto simp: sorted_append)
  show ?case
  proof (cases "\<exists>d. q = Inr (Some d)")
    case False
    then have rep: "clone_reported (x # ticks) = clone_reported ticks"
      unfolding x by (cases q) (auto split: option.splits)
    have w: "sorted (percents VoiceClone (tr @ [Wait 5]) @ clone_reported ticks @ [100])"
      using Cons.prems by (simp add: rep percents_append)
    have "snd (clone_poll start max_wait cb (x # ticks) ls lp errs tr) = tr \<or>
          snd (clone_poll start max_wait cb (x # ticks) ls lp errs tr) =
            snd (clone_poll start max_wait cb ticks ls lp (errs + 1) (tr @ [Wait 5]))"
      using False unfolding x by (cases q) (auto split: option.splits)
    with Cons.IH [OF w] st show ?thesis by auto
  next
    case True
    then obtain d where q: "q = Inr (Some d)" by blast
    define p where "p = (case clone_progress d of None \<Rightarrow> 0 | Some p \<Rightarrow> p)"
    define tr1 where "tr1 = tr @ (if cb
                               then [Progress VoiceClone p
                                       (if clone_status d = 0 then WaitingToMake else Making)]
                               else []) @ [Wait 5]"
    have pre: "sorted (percents VoiceClone tr @ p # clone_reported ticks @ [100])"
      using Cons.prems by (simp add: x q p_def)
    have s0: "sorted (percents VoiceClone (tr @ [Wait 5]) @ clone_reported ticks @ [100])"
      using sorted_drop_middle [OF pre] by (simp add: percents_append)
    have s1: "sorted (percents VoiceClone tr1 @ clone_reported ticks @ [100])"
      using pre sorted_drop_middle [OF pre] by (simp add: tr1_def percents_append)
    have step: "\<exists>ls1 lp1.
        snd (clone_poll start max_wait cb (x # ticks) ls lp errs tr) = tr \<or>
        snd (clone_poll start max_wait cb (x # ticks) ls lp errs tr) =
          tr @ (if cb then [Progress VoiceClone 100 CloneDone] else []) \<or>
        snd (clone_poll start max_wait cb (x # ticks) ls lp errs tr) =
          snd (clone_poll start max_wait cb ticks ls1 lp1 0 tr1) \<or>
        snd (clone_poll start max_wait cb (x # ticks) ls lp errs tr) =
          snd (clone_poll start max_wait cb ticks ls1 lp1 0 (tr @ [Wait 5]))"
      unfolding x q tr1_def p_def
      by (simp add: Let_def split: option.splits) blast
    with Cons.IH [OF s1] Cons.IH [OF s0] st st100 show ?thesis
      by (auto simp: percents_append)
  qed
qed

lemma estimated_pct_mono: "0 \<le> a \<Longrightarrow> a \<le> b \<Longrightarrow> estimated_pct a \<le> estimated_pct b"
  by (auto simp: estimated_pct_def min_def)

lemma estimated_pct_le: "estimated_pct a \<le> 95"
  by (simp add: estimated_pct_def)

lemma tts_poll_sorted:
  assumes "0 \<le> pc" and "sorted (percents s tr)"
    and "\<forall>p\<in>set (percents s tr). p \<le> estimated_pct pc"
  shows "sorted (percents s (snd (tts_poll start max_wait cb ticks pc errs tr))) \<and>
         (\<forall>p\<in>set (percents s (snd (tts_poll start max_wait cb ticks pc errs tr))). p \<le> 95)"
  using assms
proof (induction ticks arbitrary: pc errs tr)
  case Nil
  then show ?case using estimated_pct_le [of pc] by fastforce
next
  case (Cons x ticks)
  obtain t q where x: "x = (t, q)" by (cases x)
  have base: "sorted (percents s tr) \<and> (\<forall>p\<in>set (percents s tr). p \<le> 95)"
    using Cons.prems estimated_pct_le [of pc] by fastforce
  define tr1 where "tr1 = tr @ (if cb then [Progress SpeechSynthesis
                                         (estimated_pct (pc + 1)) Synthesizing]
                           else [])
                        @ [Wait (if pc + 1 \<le> 10 then 3 else 5)]"
  have up: "estimated_pct pc \<le> estimated_pct (pc + 1)"
    using Cons.prems(1) by (intro estimated_pct_mono) simp_all
  have a1: "sorted (percents s tr1)" "\<forall>p\<in>set (percents s tr1). p \<le> estimated_pct (pc + 1)"
    using Cons.prems(2,3) up by (auto simp: tr1_def percents_append sorted_append)
  have a2: "sorted (percents s (tr @ [Wait 5]))"
    "\<forall>p\<in>set (percents s (tr @ [Wait 5])). p \<le> estimated_pct (pc + 1)"
    "\<forall>p\<in>set (percents s (tr @ [Wait 5])). p \<le> estimated_pct pc"
    using Cons.prems(2,3) up by (auto simp: percents_append)
  have pc1: "0 \<le> pc + 1" using Cons.prems(1) by simp
  have step:
    "snd (tts_poll start max_wait cb (x # ticks) pc errs tr) = tr \<or>
     snd (tts_poll start max_wait cb (x # ticks) pc errs tr) =
       snd (tts_poll start max_wait cb ticks pc (errs + 1) (tr @ [Wait 5])) \<or>
     snd (tts_poll start max_wait cb (x # ticks) pc errs tr) =
       snd (tts_poll start max_wait cb ticks (pc + 1) 0 tr1) \<or>
     snd (tts_poll start max_wait cb (x # ticks) pc errs tr) =
       snd (tts_poll start max_wait cb ticks (pc + 1) 0 (tr @ [Wait 5]))"
    unfolding x tr1_def
    by (simp split: sum.splits option.splits)
  with Cons.IH [OF Cons.prems(1) a2(1,3), of "errs + 1"]
    Cons.IH [OF pc1 a1, of 0] Cons.IH [OF pc1 a2(1,2), of 0] base
  show ?case by presburger
qed


lemma synthesize_sorted:
  "sorted (percents s (snd (synthesize text cb created start ticks)))"
proof -
  define tr0 where "tr0 = (if cb then [Progress SpeechSynthesis 0 CreatingTask] else [])"
  define fin where "fin = (if cb then [Progress SpeechSynthesis 100 SynthesisDone] else [])"
  have syn: "synthesize text cb created start ticks =
     (if text = [] \<or> strip text = [] then (Raised TextEmpty, [])
      else if length text > 4000 then (Raised (TextTooLong (length text)), [])
      else
        (case created of
              Inl e \<Rightarrow> (Raised e, tr0)
            | Inr None \<Rightarrow> (Raised KeyError, tr0)
            | Inr (Some task_id) \<Rightarrow>
                (case tts_poll start 600 cb ticks 0 0 tr0 of
                   (Raised e, tr) \<Rightarrow> (Raised e, tr)
                 | (Pending s, tr) \<Rightarrow> (Pending s, tr)
                 | (Returned (audio_url, duration), tr) \<Rightarrow>
                     (Returned (audio_url, task_id, duration), tr @ fin))))"
    unfolding synthesize_def Let_def tr0_def fin_def by (rule refl)
  have "sorted (percents s tr0)" "\<forall>p\<in>set (percents s tr0). p \<le> estimated_pct 0"
    by (simp_all add: estimated_pct_def tr0_def)
  from tts_poll_sorted [OF _ this, of start 600 cb ticks 0]
  have poll: "sorted (percents s (snd (tts_poll start 600 cb ticks 0 0 tr0)))"
    "\<forall>p\<in>set (percents s (snd (tts_poll start 600 cb ticks 0 0 tr0))). p \<le> 95"
    by simp_all
  from poll(2) have "\<forall>p\<in>set (percents s (snd (tts_poll start 600 cb ticks 0 0 tr0))). p \<le> 100"
    by fastforce
  with poll(1) have ended: "sorted (percents s (snd (tts_poll start 600 cb ticks 0 0 tr0) @ fin))"
    by (simp add: percents_append sorted_append fin_def)
  have t0: "sorted (percents s tr0)" by (simp add: tr0_def)
  obtain r tr where p: "tts_poll start 600 cb ticks 0 0 tr0 = (r, tr)"
    by (cases "tts_poll start 600 cb ticks 0 0 tr0")
  have "snd (synthesize text cb created start ticks) = [] \<or>
        snd (synthesize text cb created start ticks) = tr0 \<or>
        snd (synthesize text cb created start ticks) = tr \<or>
        snd (synthesize text cb created start ticks) = tr @ fin"
    by (cases r) (auto simp: syn p split: sum.splits option.splits)
  with poll(1) ended t0 p show ?thesis by auto
qed

text \<open>
  C7 (amended). In a TTS operation the percentages passed to the progress callback do
  not decrease within a stage, whatever the server replies. The lip-sync and
  voice-clone loops pass on the progress values the server reports: starting from any
  trace, the percentages of the synthesis stage (of the clone stage) do not decrease
  whenever those already passed followed by the values the server reports (and by the
  final 100 of the clone stage) do not decrease.
\<close>

theorem progress_within_stage:
  "sorted (percents s (snd (synthesize text cb created start ticks))) \<and>
   (sorted (percents VideoSynthesis tr @ lip_reported lip_ticks) \<longrightarrow>
      sorted (percents VideoSynthesis
                (snd (lip_poll start max_wait cb lip_ticks last_progress last_status tr)))) \<and>
   (sorted (percents VoiceClone tr @ clone_reported clone_ticks @ [100]) \<longrightarrow>
      sorted (percents VoiceClone
                (snd (clone_poll start max_wait cb clone_ticks clone_last_status
                        clone_last_pct errs tr))))"
  by (simp add: synthesize_sorted lip_poll_sorted clone_poll_sorted)

text \<open>
  C7 as stated fails for lip-sync and for voice-clone: a server that reports the
  progress 50 and then 30 makes the callback receive 50 and then 30 in one stage.
\<close>

theorem progress_counterexample:
  "percents VideoSynthesis
     (snd (lip_poll 0 1800 True [(0, Inr (lip_reply 10 50)), (5, Inr (lip_reply 10 30))]
             (- 1) (Some (- 1)) [])) = [50, 30] \<and>
   \<not> sorted (percents VideoSynthesis
     (snd (lip_poll 0 1800 True [(0, Inr (lip_reply 10 50)), (5, Inr (lip_reply 10 30))]
             (- 1) (Some (- 1)) []))) \<and>
   percents VoiceClone
     (snd (clone_poll 0 600 True
             [(0, Inr (Some (clone_reply 1 50))), (5, Inr (Some (clone_reply 1 30)))]
             (- 1) (- 1) 0 [])) = [50, 30]"
  by (simp add: lip_reply_def clone_reply_def status_text_def Let_def)

theorem progress_within_stage_witness:
  "sorted (percents VideoSynthesis [Progress VideoSynthesis 0 CreatingTask] @
           lip_reported [(0, Inr (lip_reply 0 0)), (5, Inr (lip_reply 10 40)),
                         (10, Inr (lip_reply 10 40))]) \<and>
   sorted (percents VoiceClone [Progress VoiceClone 0 CreatingTask] @
           clone_reported [(0, Inr (Some (clone_reply 0 0))), (5, Inl KeyError),
                           (10, Inr (Some (clone_reply 1 60))),
                           (15, Inr (Some (clone_reply 2 60)))] @ [100]) \<and>
   percents SpeechSynthesis
     (snd (synthesize (ustr ''hi'') True (Inr (Some (ustr ''t1''))) 0
             [(0, Inr (Some working_reply)), (3, Inr (Some working_reply)),
              (6, Inr (Some (working_reply\<lparr>tts_status := 9,
                                              full_url := Some (ustr ''u'')\<rparr>)))]))
     = [0, 15, 30, 100] \<and>
   sorted (percents SpeechSynthesis
     (snd (synthesize (ustr ''hi'') True (Inr (Some (ustr ''t1''))) 0
             [(0, Inr (Some working_reply)), (3, Inr (Some working_reply)),
              (6, Inr (Some (working_reply\<lparr>tts_status := 9,
                                              full_url := Some (ustr ''u'')\<rparr>)))]))) \<and>
   sorted (percents VideoSynthesis
     (snd (lip_poll 0 1800 True
             [(0, Inr (lip_reply 0 0)), (5, Inr (lip_reply 10 40)), (10, Inr (lip_reply 10 40))]
             (- 1) (Some (- 1)) [Progress VideoSynthesis 0 CreatingTask]))) \<and>
   sorted (percents VoiceClone
     (snd (clone_poll 0 600 True
             [(0, Inr (Some (clone_reply 0 0))), (5, Inl KeyError),
              (10, Inr (Some (clone_reply 1 60))), (15, Inr (Some (clone_reply 2 60)))]
             (- 1) (- 1) 0 [Progress VoiceClone 0 CreatingTask])))"
proof -
  have h: "sorted (percents VideoSynthesis [Progress VideoSynthesis 0 CreatingTask] @
           lip_reported [(0, Inr (lip_reply 0 0)), (5, Inr (lip_reply 10 40)),
                         (10, Inr (lip_reply 10 40))])"
    "sorted (percents VoiceClone [Progress VoiceClone 0 CreatingTask] @
           clone_reported [(0, Inr (Some (clone_reply 0 0))), (5, Inl KeyError),
                           (10, Inr (Some (clone_reply 1 60))),
                           (15, Inr (Some (clone_reply 2 60)))] @ [100])"
    by (simp_all add: lip_reply_def clone_reply_def)
  have ev: "percents SpeechSynthesis
     (snd (synthesize (ustr ''hi'') True (Inr (Some (ustr ''t1''))) 0
             [(0, Inr (Some working_reply)), (3, Inr (Some working_reply)),
              (6, Inr (Some (working_reply\<lparr>tts_status := 9,
                                              full_url := Some (ustr ''u'')\<rparr>)))]))
     = [0, 15, 30, 100]"
    by (simp add: synthesize_def working_reply_def ustr_def strip_def is_space_def
        estimated_pct_def tts_finished_def Let_def)
  from progress_within_stage
    [of SpeechSynthesis "ustr ''hi''" True "Inr (Some (ustr ''t1''))" 0
        "[(0, Inr (Some working_reply)), (3, Inr (Some working_reply)),
          (6, Inr (Some (working_reply\<lparr>tts_status := 9, full_url := Some (ustr ''u'')\<rparr>)))]"
        "[Progress VideoSynthesis 0 CreatingTask]"
        "[(0, Inr (lip_reply 0 0)), (5, Inr (lip_reply 10 40)), (10, Inr (lip_reply 10 40))]"
        1800 "- 1" "Some (- 1)"]
  have a: "sorted (percents SpeechSynthesis
     (snd (synthesize (ustr ''hi'') True (Inr (Some (ustr ''t1''))) 0
             [(0, Inr (Some working_reply)), (3, Inr (Some working_reply)),
              (6, Inr (Some (working_reply\<lparr>tts_status := 9,
                                              full_url := Some (ustr ''u'')\<rparr>)))])))"
    and b: "sorted (percents VideoSynthesis
     (snd (lip_poll 0 1800 True
             [(0, Inr (lip_reply 0 0)), (5, Inr (lip_reply 10 40)), (10, Inr (lip_reply 10 40))]
             (- 1) (Some (- 1)) [Progress VideoSynthesis 0 CreatingTask])))"
    using h(1) by blast+
  from progress_within_stage
    [of SpeechSynthesis "[]" True "Inl KeyError" 0 "[]"
        "[Progress VoiceClone 0 CreatingTask]" "[]" 600 "- 1" "Some (- 1)"
        "[(0, Inr (Some (clone_reply 0 0))), (5, Inl KeyError),
          (10, Inr (Some (clone_reply 1 60))), (15, Inr (Some (clone_reply 2 60)))]"
        "- 1" "- 1" 0]
  have c: "sorted (percents VoiceClone
     (snd (clone_poll 0 600 True
             [(0, Inr (Some (clone_reply 0 0))), (5, Inl KeyError),
              (10, Inr (Some (clone_reply 1 60))), (15, Inr (Some (clone_reply 2 60)))]
             (- 1) (- 1) 0 [Progress VoiceClone 0 CreatingTask])))"
    using h(2) by blast
  from h ev a b c show ?thesis by blast
qed

end
